theory Spec2Isabelle
  imports Main "HOL-Library.Word" "HOL-Library.AList" "HOL-Library.Sublist"
begin

section \<open>Go values shared by the embedding\<close>

text \<open>
  A Go string is a sequence of bytes holding UTF-8 text.  The functions of
  \<^verbatim>\<open>cmd/config.go\<close> that look inside a string (\<^verbatim>\<open>strings.ToLower\<close>,
  \<^verbatim>\<open>[]rune(s)\<close>, \<^verbatim>\<open>regexp.MatchString\<close>) all work on its runes, so a string is
  modelled by its sequence of runes (code points).  Splitting at the ASCII rune
  \<^verbatim>\<open>_\<close> is the same on runes and on the UTF-8 bytes.
\<close>

type_synonym rune = nat
type_synonym gostring = "rune list"

definition S :: "string \<Rightarrow> gostring" where
  "S cs = map of_char cs"

text \<open>
  The Unicode tables of the Go standard library (\<^verbatim>\<open>unicode.ToLower\<close>,
  \<^verbatim>\<open>unicode.ToTitle\<close>, the classes \<^verbatim>\<open>\pL\<close> and \<^verbatim>\<open>\p{Nd}\<close>) are not part of the
  repository; they are a parameter of every function that uses them.
\<close>

record unicode_tables =
  ToLower :: "rune \<Rightarrow> rune"
  ToTitle :: "rune \<Rightarrow> rune"
  pL :: "rune \<Rightarrow> bool"
  pNd :: "rune \<Rightarrow> bool"

text \<open>The tables on the ASCII range, for evaluating examples.\<close>

definition ascii_tables :: unicode_tables where
  "ascii_tables =
     \<lparr> ToLower = (\<lambda>r. if 65 \<le> r \<and> r \<le> 90 then r + 32 else r),
       ToTitle = (\<lambda>r. if 97 \<le> r \<and> r \<le> 122 then r - 32 else r),
       pL = (\<lambda>r. (65 \<le> r \<and> r \<le> 90) \<or> (97 \<le> r \<and> r \<le> 122)),
       pNd = (\<lambda>r. 48 \<le> r \<and> r \<le> 57) \<rparr>"

text \<open>
  A value of type \<^verbatim>\<open>interface{}\<close>.  The type switch of \<^verbatim>\<open>validateKeys\<close> tells
  apart \<^verbatim>\<open>map[string]interface{}\<close>, \<^verbatim>\<open>[]interface{}\<close> and everything else
  (nil, maps with other key types, typed slices, functions, numbers), of which
  strings and \<^verbatim>\<open>map[string]string\<close> have constructors of their own because
  \<^verbatim>\<open>getDefaultData\<close> builds them; the rest is \<open>VOther\<close> with an opaque tag.
  A Go map is an association list: the list
  order is the order in which a \<^verbatim>\<open>range\<close> loop visits the entries, which Go
  leaves unspecified; lookup is \<open>map_of\<close> and assignment is \<open>AList.update\<close>.
\<close>

datatype "value" =
    VMap "(gostring \<times> value) list"
  | VSlice "value list"
  | VString gostring
  | VStringMap "(gostring \<times> gostring) list"
  | VOther nat

datatype semver_Version = SemVer nat nat nat gostring

datatype error =
    ErrPermission
  | ErrNotExist
  | ErrReadOnlyStore
  | InvalidKey gostring
  | NotInSourceState gostring
  | VersionTooOld semver_Version semver_Version
  | EntriesFailed "error list"
  | ErrExternal nat

datatype panic = Panic gostring

section \<open>\<^verbatim>\<open>validateKeys\<close> and \<^verbatim>\<open>identifierRegexp\<close>\<close>

text \<open>
  \<^verbatim>\<open>identifierRegexp = regexp.MustCompile(`\A[\pL_][\pL\p{Nd}_]*\z`)\<close>;
  \<open>identifierRegexp U s\<close> is \<^verbatim>\<open>identifierRegexp.MatchString(s)\<close>.
\<close>

definition underscore :: rune where
  "underscore = 95"

definition identifierRegexp :: "unicode_tables \<Rightarrow> gostring \<Rightarrow> bool" where
  "identifierRegexp U s =
     (case s of
        [] \<Rightarrow> False
      | r # rs \<Rightarrow> (pL U r \<or> r = underscore) \<and>
                 list_all (\<lambda>c. pL U c \<or> pNd U c \<or> c = underscore) rs)"

text \<open>
  \<^verbatim>\<open>validateKeys(data, re)\<close>: the two \<^verbatim>\<open>range\<close> loops are the functions
  \<open>validateKeys_map\<close> and \<open>validateKeys_slice\<close>; \<open>None\<close> is the \<^verbatim>\<open>nil\<close>
  error and \<open>InvalidKey key\<close> is \<^verbatim>\<open>fmt.Errorf("invalid key: %q", key)\<close>.
\<close>

fun validateKeys :: "value \<Rightarrow> (gostring \<Rightarrow> bool) \<Rightarrow> error option"
and validateKeys_map :: "(gostring \<times> value) list \<Rightarrow> (gostring \<Rightarrow> bool) \<Rightarrow> error option"
and validateKeys_slice :: "value list \<Rightarrow> (gostring \<Rightarrow> bool) \<Rightarrow> error option"
where
  "validateKeys (VMap kvs) re = validateKeys_map kvs re"
| "validateKeys (VSlice vs) re = validateKeys_slice vs re"
| "validateKeys (VString x) re = None"
| "validateKeys (VStringMap x) re = None"
| "validateKeys (VOther x) re = None"
| "validateKeys_map [] re = None"
| "validateKeys_map ((key, v) # kvs) re =
     (if \<not> re key then Some (InvalidKey key)
      else (case validateKeys v re of
              Some err \<Rightarrow> Some err
            | None \<Rightarrow> validateKeys_map kvs re))"
| "validateKeys_slice [] re = None"
| "validateKeys_slice (v # vs) re =
     (case validateKeys v re of
        Some err \<Rightarrow> Some err
      | None \<Rightarrow> validateKeys_slice vs re)"

text \<open>
  The keys of every map reached from a value through nested string-keyed maps
  and slices, in the order in which the loops of \<^verbatim>\<open>validateKeys\<close> meet them.
\<close>

fun keysOf :: "value \<Rightarrow> gostring list" where
  "keysOf (VMap kvs) = concat (map (\<lambda>(k, v). k # keysOf v) kvs)"
| "keysOf (VSlice vs) = concat (map keysOf vs)"
| "keysOf (VString x) = []"
| "keysOf (VStringMap x) = []"
| "keysOf (VOther x) = []"

definition firstInvalid :: "(gostring \<Rightarrow> bool) \<Rightarrow> gostring list \<Rightarrow> error option" where
  "firstInvalid re ks = map_option InvalidKey (find (\<lambda>k. \<not> re k) ks)"

section \<open>\<^verbatim>\<open>upperSnakeCaseToCamelCase\<close>\<close>

text \<open>
  \<^verbatim>\<open>strings.Split(s, "_")\<close>: the pieces of \<open>s\<close> between the separators, at
  least one piece, empty pieces kept.  \<^verbatim>\<open>strings.Join(words, "_")\<close> puts the
  separator back, and \<^verbatim>\<open>strings.Join(words, "")\<close> is \<open>concat\<close>.
\<close>

fun strings_Split :: "gostring \<Rightarrow> rune \<Rightarrow> gostring list" where
  "strings_Split [] sep = [[]]"
| "strings_Split (c # cs) sep =
     (if c = sep then [] # strings_Split cs sep
      else (c # hd (strings_Split cs sep)) # tl (strings_Split cs sep))"

fun strings_Join :: "gostring list \<Rightarrow> gostring \<Rightarrow> gostring" where
  "strings_Join [] sep = []"
| "strings_Join [w] sep = w"
| "strings_Join (w # ws) sep = w @ sep @ strings_Join ws sep"

definition strings_ToLower :: "unicode_tables \<Rightarrow> gostring \<Rightarrow> gostring" where
  "strings_ToLower U s = map (ToLower U) s"

definition wellKnownAbbreviations :: "gostring list" where
  "wellKnownAbbreviations = [S ''ANSI'', S ''CPE'', S ''ID'', S ''URL'']"

definition isWellKnownAbbreviation :: "gostring \<Rightarrow> bool" where
  "isWellKnownAbbreviation word = (word \<in> set wellKnownAbbreviations)"

fun titilize :: "unicode_tables \<Rightarrow> gostring \<Rightarrow> gostring" where
  "titilize U [] = []"
| "titilize U (r # runes) = ToTitle U r # runes"

text \<open>
  The loop \<^verbatim>\<open>for i, word := range words\<close> of \<^verbatim>\<open>upperSnakeCaseToCamelCase\<close>,
  from index \<open>i\<close> on; it overwrites \<^verbatim>\<open>words[i]\<close> in place.
\<close>

function upperSnakeCaseToCamelCase_loop ::
  "unicode_tables \<Rightarrow> nat \<Rightarrow> gostring list \<Rightarrow> gostring list" where
  "upperSnakeCaseToCamelCase_loop U i words =
     (if i < length words then
        (let word = words ! i in
         if i = 0 then
           upperSnakeCaseToCamelCase_loop U (i + 1) (words[i := strings_ToLower U word])
         else if \<not> isWellKnownAbbreviation word then
           upperSnakeCaseToCamelCase_loop U (i + 1)
             (words[i := titilize U (strings_ToLower U word)])
         else upperSnakeCaseToCamelCase_loop U (i + 1) words)
      else words)"
  by pat_completeness auto
termination
  by (relation "measure (\<lambda>(U, i, words). length words - i)") auto

definition upperSnakeCaseToCamelCase :: "unicode_tables \<Rightarrow> gostring \<Rightarrow> gostring" where
  "upperSnakeCaseToCamelCase U s =
     strings_Join (upperSnakeCaseToCamelCase_loop U 0 (strings_Split s underscore)) []"

text \<open>
  \<^verbatim>\<open>upperSnakeCaseToCamelCaseMap(m)\<close>: \<open>m\<close> lists the entries of the argument
  in the order the \<^verbatim>\<open>range\<close> loop visits them; the result map starts empty.
\<close>

fun upperSnakeCaseToCamelCaseMap_loop ::
  "unicode_tables \<Rightarrow> (gostring \<times> gostring) list \<Rightarrow> (gostring \<times> gostring) list
     \<Rightarrow> (gostring \<times> gostring) list" where
  "upperSnakeCaseToCamelCaseMap_loop U [] result = result"
| "upperSnakeCaseToCamelCaseMap_loop U ((k, v) # m) result =
     upperSnakeCaseToCamelCaseMap_loop U m
       (AList.update (upperSnakeCaseToCamelCase U k) v result)"

definition upperSnakeCaseToCamelCaseMap ::
  "unicode_tables \<Rightarrow> (gostring \<times> gostring) list \<Rightarrow> (gostring \<times> gostring) list" where
  "upperSnakeCaseToCamelCaseMap U m = upperSnakeCaseToCamelCaseMap_loop U m []"

text \<open>What one turn of the loop at an index after the first leaves in \<^verbatim>\<open>words[i]\<close>.\<close>

definition camelWord :: "unicode_tables \<Rightarrow> gostring \<Rightarrow> gostring" where
  "camelWord U word =
     (if isWellKnownAbbreviation word then word
      else titilize U (strings_ToLower U word))"

section \<open>\<^verbatim>\<open>Config\<close> and its collaborators\<close>

text \<open>
  A \<^verbatim>\<open>vfs.FS\<close> value: some filesystem the configuration was built with
  (\<open>BaseFS\<close>, identified by a tag; in production the operating system's),
  or the read-only adapter \<^verbatim>\<open>vfs.NewReadOnlyFS\<close> puts around one.  Only the
  adapter refuses the mutating calls.
\<close>

datatype vfs_FS = BaseFS nat | ReadOnlyFS vfs_FS

definition vfs_NewReadOnlyFS :: "vfs_FS \<Rightarrow> vfs_FS" where
  "vfs_NewReadOnlyFS fs0 = ReadOnlyFS fs0"

fun canMutate :: "vfs_FS \<Rightarrow> bool" where
  "canMutate (BaseFS n) = True"
| "canMutate (ReadOnlyFS fs0) = False"

text \<open>
  Values the code only passes on are opaque tags: the mutator, the output
  writer, an entry of the target state, the populate options, a persistent
  state.
\<close>

datatype Mutator = Mutator nat
datatype Writer = Writer nat
datatype Entry = Entry nat
datatype PopulateOptions = PopulateOptions nat
datatype PersistentState = PersistentState nat

type_synonym FileMode = "32 word"

record GPG =
  gpg_Command :: gostring
  gpg_Recipient :: gostring

record templateConfig =
  Options :: "gostring list"

record BaseDirectorySpecification =
  ConfigHome :: gostring
  ConfigDirs :: "gostring list"
  DataHome :: gostring
  DataDirs :: "gostring list"

text \<open>
  The fields of \<^verbatim>\<open>Config\<close> that the functions below read or write; the
  per-command configurations are left out.  A nil \<^verbatim>\<open>template.FuncMap\<close> is
  \<open>None\<close>.
\<close>

record Config =
  configFile :: gostring
  fs :: vfs_FS
  mutator :: Mutator
  SourceDir :: gostring
  DestDir :: gostring
  Umask :: int
  DryRun :: bool
  Follow :: bool
  Remove :: bool
  Verbose :: bool
  GPG :: GPG
  GPGRecipient :: gostring
  Template :: templateConfig
  Data :: "(gostring \<times> value) list"
  templateFuncs :: "(gostring \<times> value) list option"
  Stdout :: Writer
  bds :: BaseDirectorySpecification
  scriptStateBucket :: "8 word list"

text \<open>
  \<^verbatim>\<open>Config.addTemplateFunc\<close>.  \<open>Inl\<close> is the panic; \<open>Inr\<close> is the
  configuration after the call.
\<close>

definition addTemplateFunc :: "Config \<Rightarrow> gostring \<Rightarrow> value \<Rightarrow> panic + Config" where
  "addTemplateFunc c key v =
     (let c1 = (if templateFuncs c = None then c\<lparr>templateFuncs := Some []\<rparr> else c);
          funcs = (case templateFuncs c1 of Some m \<Rightarrow> m | None \<Rightarrow> [])
      in if map_of funcs key \<noteq> None
         then Inl (Panic (S ''Config.addTemplateFunc: '' @ key @ S '' already defined''))
         else Inr (c1\<lparr>templateFuncs := Some (AList.update key v funcs)\<rparr>))"

text \<open>The function registry of a configuration as a map; empty when nil.\<close>

definition registry :: "Config \<Rightarrow> gostring \<rightharpoonup> value" where
  "registry c = (case templateFuncs c of None \<Rightarrow> Map.empty | Some m \<Rightarrow> map_of m)"

text \<open>A configuration for the examples.\<close>

definition config0 :: Config where
  "config0 =
     \<lparr> configFile = [], fs = BaseFS 0, mutator = Mutator 0, SourceDir = S ''/src'',
       DestDir = S ''/home'', Umask = 18, DryRun = True, Follow = False, Remove = False,
       Verbose = False, GPG = \<lparr> gpg_Command = S ''gpg'', gpg_Recipient = [] \<rparr>,
       GPGRecipient = [], Template = \<lparr> Options = [] \<rparr>, Data = [],
       templateFuncs = None, Stdout = Writer 0,
       bds = \<lparr> ConfigHome = S ''/cfg'', ConfigDirs = [], DataHome = S ''/data'', DataDirs = [] \<rparr>,
       scriptStateBucket = [] \<rparr>"

section \<open>\<^verbatim>\<open>TARSystem\<close>\<close>

text \<open>
  \<^verbatim>\<open>tar.Header\<close> and the type flags of \<^verbatim>\<open>archive/tar\<close>
  (\<^verbatim>\<open>TypeReg = '0'\<close>, \<^verbatim>\<open>TypeSymlink = '2'\<close>, \<^verbatim>\<open>TypeDir = '5'\<close>).
\<close>

record tar_Header =
  Typeflag :: "8 word"
  Name :: gostring
  Linkname :: gostring
  Size :: "64 word"
  Mode :: "64 word"
  Uid :: int
  Gid :: int
  Uname :: gostring
  Gname :: gostring
  ModTime :: nat
  AccessTime :: nat
  ChangeTime :: nat

definition tar_TypeReg :: "8 word" where "tar_TypeReg = 48"
definition tar_TypeSymlink :: "8 word" where "tar_TypeSymlink = 50"
definition tar_TypeDir :: "8 word" where "tar_TypeDir = 53"

text \<open>
  The \<^verbatim>\<open>tar.Writer\<close> of the standard library is a parameter: its state is
  \<open>'tw\<close>, and \<open>WriteHeader\<close>, \<open>Write\<close> and \<open>Close\<close> return the error (if
  any) and the next state.
\<close>

record 'tw tar_Writer =
  WriteHeader :: "tar_Header \<Rightarrow> 'tw \<Rightarrow> error option \<times> 'tw"
  Write :: "8 word list \<Rightarrow> 'tw \<Rightarrow> (int \<times> error option) \<times> 'tw"
  Close :: "'tw \<Rightarrow> error option \<times> 'tw"

text \<open>
  \<^verbatim>\<open>TARSystem\<close>; its field \<^verbatim>\<open>w\<close> is \<open>tarw\<close> here.  Every method returns
  its error and the system after the call.
\<close>

record 'tw TARSystem =
  tarw :: 'tw
  headerTemplate :: tar_Header

definition TARSystem_Chmod ::
  "'tw TARSystem \<Rightarrow> gostring \<Rightarrow> FileMode \<Rightarrow> error option \<times> 'tw TARSystem" where
  "TARSystem_Chmod s name mode = (Some ErrPermission, s)"

definition TARSystem_Close ::
  "'tw tar_Writer \<Rightarrow> 'tw TARSystem \<Rightarrow> error option \<times> 'tw TARSystem" where
  "TARSystem_Close T s = (case Close T (tarw s) of (err, tw') \<Rightarrow> (err, s\<lparr>tarw := tw'\<rparr>))"

definition TARSystem_Mkdir ::
  "'tw tar_Writer \<Rightarrow> 'tw TARSystem \<Rightarrow> gostring \<Rightarrow> FileMode \<Rightarrow> error option \<times> 'tw TARSystem" where
  "TARSystem_Mkdir T s name perm =
     (let header = (headerTemplate s)
            \<lparr>Typeflag := tar_TypeDir, Name := name @ S ''/'', Mode := ucast perm\<rparr>
      in case WriteHeader T header (tarw s) of (err, tw') \<Rightarrow> (err, s\<lparr>tarw := tw'\<rparr>))"

definition TARSystem_RemoveAll ::
  "'tw TARSystem \<Rightarrow> gostring \<Rightarrow> error option \<times> 'tw TARSystem" where
  "TARSystem_RemoveAll s name = (Some ErrPermission, s)"

definition TARSystem_Rename ::
  "'tw TARSystem \<Rightarrow> gostring \<Rightarrow> gostring \<Rightarrow> error option \<times> 'tw TARSystem" where
  "TARSystem_Rename s oldpath newpath = (Some ErrPermission, s)"

definition TARSystem_WriteFile ::
  "'tw tar_Writer \<Rightarrow> 'tw TARSystem \<Rightarrow> gostring \<Rightarrow> 8 word list \<Rightarrow> FileMode
     \<Rightarrow> error option \<times> 'tw TARSystem" where
  "TARSystem_WriteFile T s filename data perm =
     (let header = (headerTemplate s)
            \<lparr>Typeflag := tar_TypeReg, Name := filename,
             Size := of_nat (length data), Mode := ucast perm\<rparr>
      in case WriteHeader T header (tarw s) of
           (Some err, tw') \<Rightarrow> (Some err, s\<lparr>tarw := tw'\<rparr>)
         | (None, tw') \<Rightarrow>
             (case Write T data tw' of ((n, err), tw'') \<Rightarrow> (err, s\<lparr>tarw := tw''\<rparr>)))"

definition TARSystem_RunScript ::
  "'tw tar_Writer \<Rightarrow> 'tw TARSystem \<Rightarrow> gostring \<Rightarrow> 8 word list
     \<Rightarrow> error option \<times> 'tw TARSystem" where
  "TARSystem_RunScript T s name data = TARSystem_WriteFile T s name data 448"

definition TARSystem_WriteSymlink ::
  "'tw tar_Writer \<Rightarrow> 'tw TARSystem \<Rightarrow> gostring \<Rightarrow> gostring \<Rightarrow> error option \<times> 'tw TARSystem" where
  "TARSystem_WriteSymlink T s oldname newname =
     (let header = (headerTemplate s)
            \<lparr>Typeflag := tar_TypeSymlink, Name := newname, Linkname := oldname\<rparr>
      in case WriteHeader T header (tarw s) of (err, tw') \<Rightarrow> (err, s\<lparr>tarw := tw'\<rparr>))"

text \<open>
  A writer for the examples: the archive is the list of the headers written,
  each with the bytes written after it; it never fails.
\<close>

definition listWriter :: "((tar_Header \<times> 8 word list) list) tar_Writer" where
  "listWriter =
     \<lparr> WriteHeader = (\<lambda>h tw. (None, tw @ [(h, [])])),
       Write = (\<lambda>d tw. ((int (length d), None),
                  (case rev tw of
                     [] \<Rightarrow> []
                   | (h, b) # earlier \<Rightarrow> rev earlier @ [(h, b @ d)]))),
       Close = (\<lambda>tw. (None, tw)) \<rparr>"

definition header0 :: tar_Header where
  "header0 =
     \<lparr> Typeflag = 0, Name = [], Linkname = [], Size = 0, Mode = 0, Uid = 1000, Gid = 1000,
       Uname = S ''user'', Gname = S ''user'', ModTime = 0, AccessTime = 0, ChangeTime = 0 \<rparr>"

section \<open>The target state and the environment of \<^verbatim>\<open>Config\<close>'s methods\<close>

text \<open>\<^verbatim>\<open>bolt.Options\<close> of bbolt (its \<^verbatim>\<open>OpenFile\<close> function field is left out).\<close>

record bolt_Options =
  Timeout :: int
  NoGrowSync :: bool
  NoFreelistSync :: bool
  FreelistType :: gostring
  ReadOnly :: bool
  MmapFlags :: int
  InitialMmapSize :: int
  PageSize :: int
  NoSync :: bool

text \<open>The zero value \<^verbatim>\<open>bolt.Options{}\<close>.\<close>

definition bolt_Options_zero :: bolt_Options where
  "bolt_Options_zero =
     \<lparr> Timeout = 0, NoGrowSync = False, NoFreelistSync = False, FreelistType = [],
       ReadOnly = False, MmapFlags = 0, InitialMmapSize = 0, PageSize = 0, NoSync = False \<rparr>"

text \<open>
  The ignore matcher of a target state is an ordered list of patterns, each
  with its negation flag.
\<close>

type_synonym PatternSet = "(gostring \<times> bool) list"

text \<open>
  \<^verbatim>\<open>chezmoi.TargetState\<close>: the fields \<^verbatim>\<open>getTargetState\<close> sets through the
  \<^verbatim>\<open>With...\<close> options and the fields \<^verbatim>\<open>applyArgs\<close> and \<^verbatim>\<open>getTargetState\<close>
  read, with the entries.
\<close>

record TargetState =
  ts_DestDir :: gostring
  ts_GPG :: GPG
  ts_SourceDir :: gostring
  ts_TemplateData :: "(gostring \<times> value) list"
  ts_TemplateFuncs :: "(gostring \<times> value) list option"
  ts_TemplateOptions :: "gostring list"
  ts_Umask :: FileMode
  ts_Entries :: "Entry list"
  ts_TargetIgnore :: PatternSet
  ts_MinVersion :: "semver_Version option"

text \<open>
  Modelled from the spec: \<^verbatim>\<open>chezmoi.NewTargetState\<close> and its options are not
  under \<^verbatim>\<open>src/\<close>.  A target state is constructed fresh for each invocation;
  the constructor stores its options, and the entries, the ignore patterns and
  the minimum version come from \<^verbatim>\<open>Populate\<close>.
\<close>

definition NewTargetState ::
  "gostring \<Rightarrow> GPG \<Rightarrow> gostring \<Rightarrow> (gostring \<times> value) list \<Rightarrow> (gostring \<times> value) list option
     \<Rightarrow> gostring list \<Rightarrow> FileMode \<Rightarrow> TargetState" where
  "NewTargetState destDir gpg sourceDir data funcs options umask =
     \<lparr> ts_DestDir = destDir, ts_GPG = gpg, ts_SourceDir = sourceDir, ts_TemplateData = data,
       ts_TemplateFuncs = funcs, ts_TemplateOptions = options, ts_Umask = umask,
       ts_Entries = [], ts_TargetIgnore = [], ts_MinVersion = None \<rparr>"

text \<open>
  \<^verbatim>\<open>chezmoi.ApplyOptions\<close>.  \<^verbatim>\<open>Ignore\<close> is the method value
  \<^verbatim>\<open>ts.TargetIgnore.Match\<close>, held as its receiver.
\<close>

record ApplyOptions =
  ao_DestDir :: gostring
  ao_DryRun :: bool
  ao_Ignore :: PatternSet
  ao_PersistentState :: PersistentState
  ao_Remove :: bool
  ao_ScriptStateBucket :: "8 word list"
  ao_Stdout :: Writer
  ao_Umask :: FileMode
  ao_Verbose :: bool

record user_User =
  user_Username :: gostring
  user_Gid :: gostring

text \<open>
  Everything the methods call that is not in \<^verbatim>\<open>cmd/config.go\<close>: the standard
  library, the libraries, and the functions of this repository whose source is
  not at hand (\<^verbatim>\<open>getOSRelease\<close>, \<^verbatim>\<open>getKernelInfo\<close>,
  \<^verbatim>\<open>TargetState.Populate\<close>, \<^verbatim>\<open>TargetState.Get\<close>, \<^verbatim>\<open>Entry.Apply\<close>,
  \<^verbatim>\<open>NewBoltPersistentState\<close>, \<^verbatim>\<open>PersistentState.Set\<close>).  \<open>'w\<close> is the state
  of the world they read and change; a call that may change it returns the
  next state.  \<open>Version\<close> is the package variable \<^verbatim>\<open>Version\<close>, nil when the
  program has no parsed version.  \<open>os_Stat path w\<close> holds when
  \<^verbatim>\<open>os.Stat(path)\<close> returns no error.
\<close>

record 'w env =
  unicode :: unicode_tables
  os_Stat :: "gostring \<Rightarrow> 'w \<Rightarrow> bool"
  filepath_Abs :: "gostring \<Rightarrow> 'w \<Rightarrow> error + gostring"
  filepath_Dir :: "gostring \<Rightarrow> gostring"
  filepath_Join :: "gostring list \<Rightarrow> gostring"
  viper_SupportedExts :: "gostring list"
  runtime_GOARCH :: gostring
  runtime_GOOS :: gostring
  user_Current :: "'w \<Rightarrow> error + user_User"
  user_LookupGroupId :: "gostring \<Rightarrow> 'w \<Rightarrow> error + gostring"
  os_UserHomeDir :: "'w \<Rightarrow> error + gostring"
  os_Hostname :: "'w \<Rightarrow> error + gostring"
  getOSRelease :: "vfs_FS \<Rightarrow> 'w \<Rightarrow> (error + (gostring \<times> gostring) list option) \<times> 'w"
  getKernelInfo :: "vfs_FS \<Rightarrow> 'w \<Rightarrow> (error + (gostring \<times> gostring) list option) \<times> 'w"
  Version :: "semver_Version option"
  LessThan :: "semver_Version \<Rightarrow> semver_Version \<Rightarrow> bool"
  Populate :: "TargetState \<Rightarrow> vfs_FS \<Rightarrow> PopulateOptions option \<Rightarrow> 'w
                 \<Rightarrow> (error option \<times> TargetState) \<times> 'w"
  TargetState_Get :: "TargetState \<Rightarrow> vfs_FS \<Rightarrow> gostring \<Rightarrow> 'w \<Rightarrow> (error + Entry option) \<times> 'w"
  Entry_Apply :: "Entry \<Rightarrow> vfs_FS \<Rightarrow> Mutator \<Rightarrow> bool \<Rightarrow> ApplyOptions \<Rightarrow> 'w \<Rightarrow> error option \<times> 'w"
  reportFailure :: "Entry \<Rightarrow> error \<Rightarrow> 'w \<Rightarrow> 'w"
  NewBoltPersistentState :: "vfs_FS \<Rightarrow> gostring \<Rightarrow> FileMode \<Rightarrow> bolt_Options option \<Rightarrow> 'w
                               \<Rightarrow> (error + PersistentState) \<times> 'w"
  PersistentState_Set :: "PersistentState \<Rightarrow> 8 word list \<Rightarrow> 8 word list \<Rightarrow> 8 word list \<Rightarrow> 'w
                            \<Rightarrow> error option \<times> 'w"

definition os_IsNotExist :: "error \<Rightarrow> bool" where
  "os_IsNotExist err = (err = ErrNotExist)"

section \<open>The methods of \<^verbatim>\<open>Config\<close>\<close>

text \<open>
  \<^verbatim>\<open>getDefaultConfigFile\<close>: the nested loops return the first candidate that
  \<^verbatim>\<open>os.Stat\<close> finds, in loop order.
\<close>

definition getDefaultConfigFile :: "'w env \<Rightarrow> BaseDirectorySpecification \<Rightarrow> 'w \<Rightarrow> gostring" where
  "getDefaultConfigFile E b w =
     (case find (\<lambda>configFilePath. os_Stat E configFilePath w)
             (concat (map (\<lambda>configDir.
                map (\<lambda>extension.
                  filepath_Join E [configDir, S ''chezmoi'', S ''chezmoi.'' @ extension])
                  (viper_SupportedExts E))
                (ConfigDirs b))) of
        Some configFilePath \<Rightarrow> configFilePath
      | None \<Rightarrow> filepath_Join E [ConfigHome b, S ''chezmoi'', S ''chezmoi.toml''])"

definition getPersistentStateFile :: "'w env \<Rightarrow> Config \<Rightarrow> 'w \<Rightarrow> gostring" where
  "getPersistentStateFile E c w =
     (if configFile c \<noteq> [] then
        filepath_Join E [filepath_Dir E (configFile c), S ''chezmoistate.boltdb'']
      else
        (case find (\<lambda>persistentStateFile. os_Stat E persistentStateFile w)
                (map (\<lambda>configDir.
                   filepath_Join E [configDir, S ''chezmoi'', S ''chezmoistate.boltdb''])
                   (ConfigDirs (bds c))) of
           Some persistentStateFile \<Rightarrow> persistentStateFile
         | None \<Rightarrow>
             filepath_Join E [filepath_Dir E (getDefaultConfigFile E (bds c) w),
                              S ''chezmoistate.boltdb'']))"

text \<open>
  \<^verbatim>\<open>getPersistentState\<close>.  \<open>getPersistentState_options\<close> is the value of
  \<^verbatim>\<open>options\<close> when \<^verbatim>\<open>NewBoltPersistentState\<close> is called (\<open>None\<close> is nil).
\<close>

definition getPersistentState_options :: "Config \<Rightarrow> bolt_Options option \<Rightarrow> bolt_Options option" where
  "getPersistentState_options c options =
     (if DryRun c then
        Some ((case options of None \<Rightarrow> bolt_Options_zero | Some opts \<Rightarrow> opts)\<lparr>ReadOnly := True\<rparr>)
      else options)"

definition getPersistentState ::
  "'w env \<Rightarrow> Config \<Rightarrow> bolt_Options option \<Rightarrow> 'w \<Rightarrow> (error + PersistentState) \<times> 'w" where
  "getPersistentState E c options w =
     (let persistentStateFile = getPersistentStateFile E c w
      in NewBoltPersistentState E (fs c) persistentStateFile (word_of_int (Umask c))
           (getPersistentState_options c options) w)"

text \<open>\<^verbatim>\<open>getDefaultData\<close>, in two halves: up to the host name, and from \<^verbatim>\<open>getOSRelease\<close> on.\<close>

definition getDefaultData_host :: "'w env \<Rightarrow> Config \<Rightarrow> 'w \<Rightarrow> error + (gostring \<times> value) list" where
  "getDefaultData_host E c w =
     (let data = [(S ''arch'', VString (runtime_GOARCH E)),
                  (S ''os'', VString (runtime_GOOS E)),
                  (S ''sourceDir'', VString (SourceDir c))]
      in case user_Current E w of
           Inl err \<Rightarrow> Inl err
         | Inr currentUser \<Rightarrow>
             (let data = AList.update (S ''username'') (VString (user_Username currentUser)) data;
                  data = (case user_LookupGroupId E (user_Gid currentUser) w of
                            Inr name \<Rightarrow> AList.update (S ''group'') (VString name) data
                          | Inl err \<Rightarrow> data)
              in case os_UserHomeDir E w of
                   Inl err \<Rightarrow> Inl err
                 | Inr homedir \<Rightarrow>
                     (let data = AList.update (S ''homedir'') (VString homedir) data
                      in case os_Hostname E w of
                           Inl err \<Rightarrow> Inl err
                         | Inr hostname \<Rightarrow>
                             Inr (AList.update (S ''hostname'')
                                    (VString (takeWhile (\<lambda>r. r \<noteq> 46) hostname))
                                    (AList.update (S ''fullHostname'') (VString hostname) data)))))"

definition getDefaultData ::
  "'w env \<Rightarrow> Config \<Rightarrow> 'w \<Rightarrow> (error + (gostring \<times> value) list) \<times> 'w" where
  "getDefaultData E c w =
     (case getDefaultData_host E c w of
        Inl err \<Rightarrow> (Inl err, w)
      | Inr data \<Rightarrow>
          (case getOSRelease E (fs c) w of
             (Inl err, w1) \<Rightarrow>
               if \<not> os_IsNotExist err then (Inl err, w1)
               else (case getKernelInfo E (fs c) w1 of
                       (Inl err, w2) \<Rightarrow> (Inl err, w2)
                     | (Inr None, w2) \<Rightarrow> (Inr data, w2)
                     | (Inr (Some kernelInfo), w2) \<Rightarrow>
                         (Inr (AList.update (S ''kernel'') (VStringMap kernelInfo) data), w2))
           | (Inr osRelease, w1) \<Rightarrow>
               (let data = (case osRelease of
                              None \<Rightarrow> data
                            | Some m \<Rightarrow>
                                AList.update (S ''osRelease'')
                                  (VStringMap (upperSnakeCaseToCamelCaseMap (unicode E) m)) data)
                in case getKernelInfo E (fs c) w1 of
                     (Inl err, w2) \<Rightarrow> (Inl err, w2)
                   | (Inr None, w2) \<Rightarrow> (Inr data, w2)
                   | (Inr (Some kernelInfo), w2) \<Rightarrow>
                       (Inr (AList.update (S ''kernel'') (VStringMap kernelInfo) data), w2))))"

definition getData ::
  "'w env \<Rightarrow> Config \<Rightarrow> 'w \<Rightarrow> (error + (gostring \<times> value) list) \<times> 'w" where
  "getData E c w =
     (case getDefaultData E c w of
        (Inl err, w1) \<Rightarrow> (Inl err, w1)
      | (Inr defaultData, w1) \<Rightarrow>
          (Inr (foldl (\<lambda>data (key, v). AList.update key v data)
                  [(S ''chezmoi'', VMap defaultData)] (Data c)), w1))"

text \<open>
  \<^verbatim>\<open>getTargetState\<close>.  The method writes \<^verbatim>\<open>c.GPG.Recipient\<close>, so it returns
  the configuration too.  \<open>getTargetState_populate\<close> is the body up to and
  including the call of \<^verbatim>\<open>ts.Populate\<close>; \<open>versionGate\<close> is the condition of
  the last \<^verbatim>\<open>if\<close> with the error it returns.
\<close>

definition getTargetState_populate ::
  "'w env \<Rightarrow> Config \<Rightarrow> PopulateOptions option \<Rightarrow> 'w
     \<Rightarrow> ((error + TargetState) \<times> Config) \<times> 'w" where
  "getTargetState_populate E c populateOptions w =
     (let fs1 = vfs_NewReadOnlyFS (fs c)
      in case getData E c w of
           (Inl err, w1) \<Rightarrow> ((Inl err, c), w1)
         | (Inr data, w1) \<Rightarrow>
             (case (if DestDir c \<noteq> [] then filepath_Abs E (DestDir c) w1 else Inr (DestDir c)) of
                Inl err \<Rightarrow> ((Inl err, c), w1)
              | Inr destDir \<Rightarrow>
                  (let c1 = (if GPGRecipient c \<noteq> []
                             then c\<lparr>GPG := (GPG c)\<lparr>gpg_Recipient := GPGRecipient c\<rparr>\<rparr>
                             else c);
                       ts = NewTargetState destDir (GPG c1) (SourceDir c1) data
                              (templateFuncs c1) (Options (Template c1)) (word_of_int (Umask c1))
                   in case Populate E ts fs1 populateOptions w1 of
                        ((Some err, ts1), w2) \<Rightarrow> ((Inl err, c1), w2)
                      | ((None, ts1), w2) \<Rightarrow> ((Inr ts1, c1), w2))))"

definition versionGate :: "'w env \<Rightarrow> TargetState \<Rightarrow> error option" where
  "versionGate E ts =
     (case Version E of
        None \<Rightarrow> None
      | Some v \<Rightarrow>
          (case ts_MinVersion ts of
             None \<Rightarrow> None
           | Some m \<Rightarrow> if LessThan E v m then Some (VersionTooOld v m) else None))"

definition getTargetState ::
  "'w env \<Rightarrow> Config \<Rightarrow> PopulateOptions option \<Rightarrow> 'w
     \<Rightarrow> ((error + TargetState) \<times> Config) \<times> 'w" where
  "getTargetState E c populateOptions w =
     (case getTargetState_populate E c populateOptions w of
        ((Inl err, c1), w1) \<Rightarrow> ((Inl err, c1), w1)
      | ((Inr ts, c1), w1) \<Rightarrow>
          (case versionGate E ts of
             Some err \<Rightarrow> ((Inl err, c1), w1)
           | None \<Rightarrow> ((Inr ts, c1), w1)))"

text \<open>\<^verbatim>\<open>getEntries\<close>: the loop over \<^verbatim>\<open>args\<close>, with the entries collected so far.\<close>

fun getEntries_loop ::
  "'w env \<Rightarrow> Config \<Rightarrow> TargetState \<Rightarrow> gostring list \<Rightarrow> Entry list \<Rightarrow> 'w
     \<Rightarrow> (error + Entry list) \<times> 'w" where
  "getEntries_loop E c ts [] entries w = (Inr entries, w)"
| "getEntries_loop E c ts (arg # args) entries w =
     (case filepath_Abs E arg w of
        Inl err \<Rightarrow> (Inl err, w)
      | Inr targetPath \<Rightarrow>
          (case TargetState_Get E ts (fs c) targetPath w of
             (Inl err, w1) \<Rightarrow> (Inl err, w1)
           | (Inr None, w1) \<Rightarrow> (Inl (NotInSourceState arg), w1)
           | (Inr (Some entry), w1) \<Rightarrow> getEntries_loop E c ts args (entries @ [entry]) w1))"

definition getEntries ::
  "'w env \<Rightarrow> Config \<Rightarrow> TargetState \<Rightarrow> gostring list \<Rightarrow> 'w \<Rightarrow> (error + Entry list) \<times> 'w" where
  "getEntries E c ts args w = getEntries_loop E c ts args [] w"

text \<open>
  Modelled from the spec: \<^verbatim>\<open>TargetState.Apply\<close> is not under \<^verbatim>\<open>src/\<close>.  Batch
  apply goes through the entries in order; a failure applying one entry is
  reported and the engine continues with the next entry; the run fails at the
  end if any entry failed.
\<close>

fun TargetState_Apply_loop ::
  "'w env \<Rightarrow> Entry list \<Rightarrow> vfs_FS \<Rightarrow> Mutator \<Rightarrow> bool \<Rightarrow> ApplyOptions \<Rightarrow> error list \<Rightarrow> 'w
     \<Rightarrow> error list \<times> 'w" where
  "TargetState_Apply_loop E [] fs0 m follow ao errs w = (errs, w)"
| "TargetState_Apply_loop E (entry # entries) fs0 m follow ao errs w =
     (case Entry_Apply E entry fs0 m follow ao w of
        (None, w1) \<Rightarrow> TargetState_Apply_loop E entries fs0 m follow ao errs w1
      | (Some err, w1) \<Rightarrow>
          TargetState_Apply_loop E entries fs0 m follow ao (errs @ [err])
            (reportFailure E entry err w1))"

definition TargetState_Apply ::
  "'w env \<Rightarrow> TargetState \<Rightarrow> vfs_FS \<Rightarrow> Mutator \<Rightarrow> bool \<Rightarrow> ApplyOptions \<Rightarrow> 'w
     \<Rightarrow> error option \<times> 'w" where
  "TargetState_Apply E ts fs0 m follow ao w =
     (case TargetState_Apply_loop E (ts_Entries ts) fs0 m follow ao [] w of
        (errs, w1) \<Rightarrow> (if errs = [] then None else Some (EntriesFailed errs), w1))"

text \<open>\<^verbatim>\<open>applyArgs\<close>; \<open>applyArgs_loop\<close> is its loop over the named entries.\<close>

fun applyArgs_loop ::
  "'w env \<Rightarrow> Entry list \<Rightarrow> vfs_FS \<Rightarrow> Mutator \<Rightarrow> bool \<Rightarrow> ApplyOptions \<Rightarrow> 'w
     \<Rightarrow> error option \<times> 'w" where
  "applyArgs_loop E [] fs0 m follow ao w = (None, w)"
| "applyArgs_loop E (entry # entries) fs0 m follow ao w =
     (case Entry_Apply E entry fs0 m follow ao w of
        (Some err, w1) \<Rightarrow> (Some err, w1)
      | (None, w1) \<Rightarrow> applyArgs_loop E entries fs0 m follow ao w1)"

definition applyOptionsOf :: "Config \<Rightarrow> TargetState \<Rightarrow> PersistentState \<Rightarrow> ApplyOptions" where
  "applyOptionsOf c ts persistentState =
     \<lparr> ao_DestDir = ts_DestDir ts, ao_DryRun = DryRun c, ao_Ignore = ts_TargetIgnore ts,
       ao_PersistentState = persistentState, ao_Remove = Remove c,
       ao_ScriptStateBucket = scriptStateBucket c, ao_Stdout = Stdout c,
       ao_Umask = ts_Umask ts, ao_Verbose = Verbose c \<rparr>"

definition applyArgs ::
  "'w env \<Rightarrow> Config \<Rightarrow> gostring list \<Rightarrow> PersistentState \<Rightarrow> 'w
     \<Rightarrow> (error option \<times> Config) \<times> 'w" where
  "applyArgs E c args persistentState w =
     (let fs1 = vfs_NewReadOnlyFS (fs c)
      in case getTargetState E c None w of
           ((Inl err, c1), w1) \<Rightarrow> ((Some err, c1), w1)
         | ((Inr ts, c1), w1) \<Rightarrow>
             (let applyOptions = applyOptionsOf c1 ts persistentState
              in if length args = 0 then
                   (case TargetState_Apply E ts fs1 (mutator c1) (Follow c1) applyOptions w1 of
                      (err, w2) \<Rightarrow> ((err, c1), w2))
                 else
                   (case getEntries E c1 ts args w1 of
                      (Inl err, w2) \<Rightarrow> ((Some err, c1), w2)
                    | (Inr entries, w2) \<Rightarrow>
                        (case applyArgs_loop E entries fs1 (mutator c1) (Follow c1)
                                applyOptions w2 of
                           (err, w3) \<Rightarrow> ((err, c1), w3)))))"

section \<open>Recording the filesystem handles handed out\<close>

text \<open>
  The calls that receive a \<^verbatim>\<open>vfs.FS\<close>, each with the handle it is given
  (\<^verbatim>\<open>TargetState.Get\<close> also with its path, \<^verbatim>\<open>Entry.Apply\<close> with its mutator
  and its entry).
  \<open>traced E\<close> is the environment \<open>E\<close> with a log added to the world: it
  behaves as \<open>E\<close> and appends every such call to the log.
\<close>

datatype fs_call =
    Call_getOSRelease vfs_FS
  | Call_getKernelInfo vfs_FS
  | Call_Populate vfs_FS
  | Call_Get vfs_FS gostring
  | Call_Apply vfs_FS Mutator Entry

definition traced :: "'w env \<Rightarrow> ('w \<times> fs_call list) env" where
  "traced E =
     \<lparr> unicode = unicode E,
       os_Stat = (\<lambda>p wt. os_Stat E p (fst wt)),
       filepath_Abs = (\<lambda>p wt. filepath_Abs E p (fst wt)),
       filepath_Dir = filepath_Dir E,
       filepath_Join = filepath_Join E,
       viper_SupportedExts = viper_SupportedExts E,
       runtime_GOARCH = runtime_GOARCH E,
       runtime_GOOS = runtime_GOOS E,
       user_Current = (\<lambda>wt. user_Current E (fst wt)),
       user_LookupGroupId = (\<lambda>g wt. user_LookupGroupId E g (fst wt)),
       os_UserHomeDir = (\<lambda>wt. os_UserHomeDir E (fst wt)),
       os_Hostname = (\<lambda>wt. os_Hostname E (fst wt)),
       getOSRelease = (\<lambda>h wt. case getOSRelease E h (fst wt) of
                          (r, w1) \<Rightarrow> (r, (w1, snd wt @ [Call_getOSRelease h]))),
       getKernelInfo = (\<lambda>h wt. case getKernelInfo E h (fst wt) of
                          (r, w1) \<Rightarrow> (r, (w1, snd wt @ [Call_getKernelInfo h]))),
       Version = Version E,
       LessThan = LessThan E,
       Populate = (\<lambda>ts h po wt. case Populate E ts h po (fst wt) of
                          (r, w1) \<Rightarrow> (r, (w1, snd wt @ [Call_Populate h]))),
       TargetState_Get = (\<lambda>ts h p wt. case TargetState_Get E ts h p (fst wt) of
                          (r, w1) \<Rightarrow> (r, (w1, snd wt @ [Call_Get h p]))),
       Entry_Apply = (\<lambda>e h m follow ao wt. case Entry_Apply E e h m follow ao (fst wt) of
                          (r, w1) \<Rightarrow> (r, (w1, snd wt @ [Call_Apply h m e]))),
       reportFailure = (\<lambda>e err wt. (reportFailure E e err (fst wt), snd wt)),
       NewBoltPersistentState = (\<lambda>h file perm opts wt.
                          case NewBoltPersistentState E h file perm opts (fst wt) of
                            (r, w1) \<Rightarrow> (r, (w1, snd wt))),
       PersistentState_Set = (\<lambda>ps b k v wt. case PersistentState_Set E ps b k v (fst wt) of
                          (r, w1) \<Rightarrow> (r, (w1, snd wt))) \<rparr>"

text \<open>
  What the read side is given, by callee: \<^verbatim>\<open>Populate\<close> and \<^verbatim>\<open>Entry.Apply\<close>
  the read-only adapter around the filesystem \<open>fs0\<close> of the configuration
  (\<^verbatim>\<open>Entry.Apply\<close> with the mutator \<open>m0\<close> of the configuration beside it), the
  other three \<open>fs0\<close> itself.
\<close>

fun handleAsWritten :: "vfs_FS \<Rightarrow> Mutator \<Rightarrow> fs_call \<Rightarrow> bool" where
  "handleAsWritten fs0 m0 (Call_Populate h) = (h = ReadOnlyFS fs0)"
| "handleAsWritten fs0 m0 (Call_Apply h m e) = (h = ReadOnlyFS fs0 \<and> m = m0)"
| "handleAsWritten fs0 m0 (Call_getOSRelease h) = (h = fs0)"
| "handleAsWritten fs0 m0 (Call_getKernelInfo h) = (h = fs0)"
| "handleAsWritten fs0 m0 (Call_Get h p) = (h = fs0)"

fun handleOf :: "fs_call \<Rightarrow> vfs_FS" where
  "handleOf (Call_Populate h) = h"
| "handleOf (Call_Apply h m e) = h"
| "handleOf (Call_getOSRelease h) = h"
| "handleOf (Call_getKernelInfo h) = h"
| "handleOf (Call_Get h p) = h"

section \<open>An environment for the examples\<close>

text \<open>
  The world is the list of the entries applied so far.  Every call succeeds,
  except that applying \<open>Entry 2\<close> fails; the populated target state has the
  entries 1, 2, 3 and the minimum version given; a store opened read-only is
  \<open>PersistentState 1\<close> and refuses \<^verbatim>\<open>Set\<close>.  Versions compare by their three
  numbers.
\<close>

fun semverLess :: "semver_Version \<Rightarrow> semver_Version \<Rightarrow> bool" where
  "semverLess (SemVer a b c p) (SemVer a' b' c' p') =
     (a < a' \<or> (a = a' \<and> (b < b' \<or> (b = b' \<and> c < c'))))"

definition env0 :: "semver_Version option \<Rightarrow> (Entry list) env" where
  "env0 minVersion =
     \<lparr> unicode = ascii_tables,
       os_Stat = (\<lambda>p w. False),
       filepath_Abs = (\<lambda>p w. Inr p),
       filepath_Dir = (\<lambda>p. p),
       filepath_Join = concat,
       viper_SupportedExts = [S ''toml''],
       runtime_GOARCH = S ''amd64'',
       runtime_GOOS = S ''linux'',
       user_Current = (\<lambda>w. Inr \<lparr> user_Username = S ''user'', user_Gid = S ''100'' \<rparr>),
       user_LookupGroupId = (\<lambda>g w. Inr (S ''users'')),
       os_UserHomeDir = (\<lambda>w. Inr (S ''/home/user'')),
       os_Hostname = (\<lambda>w. Inr (S ''host.example'')),
       getOSRelease = (\<lambda>h w. (Inr None, w)),
       getKernelInfo = (\<lambda>h w. (Inr None, w)),
       Version = Some (SemVer 1 8 0 []),
       LessThan = semverLess,
       Populate = (\<lambda>ts h po w.
          ((None, ts\<lparr>ts_Entries := [Entry 1, Entry 2, Entry 3], ts_MinVersion := minVersion\<rparr>), w)),
       TargetState_Get = (\<lambda>ts h p w.
          (Inr (if p = S ''a'' then Some (Entry 1) else if p = S ''b'' then Some (Entry 2)
                else if p = S ''c'' then Some (Entry 3) else None), w)),
       Entry_Apply = (\<lambda>e h m follow ao w.
          (if e = Entry 2 then Some (ErrExternal 2) else None, w @ [e])),
       reportFailure = (\<lambda>e err w. w),
       NewBoltPersistentState = (\<lambda>h file perm opts w.
          (Inr (PersistentState (case opts of None \<Rightarrow> 0
                                 | Some o1 \<Rightarrow> if ReadOnly o1 then 1 else 0)), w)),
       PersistentState_Set = (\<lambda>ps b k v w.
          (if ps = PersistentState 1 then Some ErrReadOnlyStore else None, w)) \<rparr>"

text \<open>
  The contract of the store, which is bbolt's and \<^verbatim>\<open>BoltPersistentState\<close>'s and
  not in \<^verbatim>\<open>cmd/config.go\<close>: a persistent state opened with the \<^verbatim>\<open>ReadOnly\<close>
  option answers every \<^verbatim>\<open>Set\<close> with an error.
\<close>

definition readOnlyStoreRefusesWrites :: "'w env \<Rightarrow> bool" where
  "readOnlyStoreRefusesWrites E =
     (\<forall>fs0 file perm opts w ps w1.
        NewBoltPersistentState E fs0 file perm (Some opts) w = (Inr ps, w1) \<and> ReadOnly opts \<longrightarrow>
        (\<forall>bucket key v w2. fst (PersistentState_Set E ps bucket key v w2) \<noteq> None))"

text \<open>
  \<open>extendsTrace fs0 m0 t t'\<close>: the log \<open>t'\<close> is \<open>t\<close> followed by calls
  that all hold the handle written for them in the source.
\<close>

definition extendsTrace :: "vfs_FS \<Rightarrow> Mutator \<Rightarrow> fs_call list \<Rightarrow> fs_call list \<Rightarrow> bool" where
  "extendsTrace fs0 m0 t t' = (\<exists>new. t' = t @ new \<and> list_all (handleAsWritten fs0 m0) new)"

section \<open>The ignore matcher\<close>

text \<open>
  Modelled from the spec: the ignore matcher (\<^verbatim>\<open>TargetIgnore.Match\<close>) and the
  glob library are not under \<^verbatim>\<open>src/\<close>.  The matcher maintains an ordered list
  of (pattern, negated) pairs; the result is the outcome of the last pattern in
  file order that matches the path (ignored for a plain pattern, not ignored
  for a negated one), and not ignored when no pattern matches.  \<open>glob\<close> is the
  glob matcher.
\<close>

definition IgnoreMatcher_Match :: "(gostring \<Rightarrow> gostring \<Rightarrow> bool) \<Rightarrow> PatternSet \<Rightarrow> gostring \<Rightarrow> bool" where
  "IgnoreMatcher_Match glob patterns path =
     (case find (\<lambda>(pattern, negated). glob pattern path) (rev patterns) of
        None \<Rightarrow> False
      | Some (pattern, negated) \<Rightarrow> \<not> negated)"

text \<open>
  Modelled from the spec: a line of the ignore-pattern file is a glob pattern
  with an optional leading \<^verbatim>\<open>!\<close> for negation.
\<close>

definition patternOfLine :: "gostring \<Rightarrow> gostring \<times> bool" where
  "patternOfLine line =
     (case line of
        r # rest \<Rightarrow> if r = 33 then (rest, True) else (line, False)
      | [] \<Rightarrow> (line, False))"

text \<open>
  Modelled from the spec: glob patterns, of which the spec's example needs the
  star.  \<^verbatim>\<open>*\<close> (42) matches any run of runes other than the separator
  \<^verbatim>\<open>/\<close> (47), \<^verbatim>\<open>?\<close> (63) one such rune, any other rune itself.
\<close>

fun globMatch :: "gostring \<Rightarrow> gostring \<Rightarrow> bool" where
  "globMatch [] s = (s = [])"
| "globMatch (p # ps) [] = (p = 42 \<and> globMatch ps [])"
| "globMatch (p # ps) (c # cs) =
     (if p = 42 then globMatch ps (c # cs) \<or> (c \<noteq> 47 \<and> globMatch (p # ps) cs)
      else if p = 63 then c \<noteq> 47 \<and> globMatch ps cs
      else p = c \<and> globMatch ps cs)"

section \<open>The attribute codec\<close>

text \<open>
  Modelled from the spec: \<^verbatim>\<open>ParseDirAttributes\<close>, \<^verbatim>\<open>ParseFileAttributes\<close> and
  the two \<^verbatim>\<open>SourceName\<close> methods are not under \<^verbatim>\<open>src/\<close>; only their test
  is.  The records have the fields the test sets.  The codec is a pure string
  decomposition with a prefix marker for each flag, a marker for a leading dot
  of the target name, a prefix for scripts and one for symlinks, and a suffix
  for templates; the encoding emits the markers in one fixed order.  The spec
  names the markers by their role only, so they are the parameter \<open>M\<close>; the
  order is that of the source naming convention of the program.
\<close>

datatype SourceFileType = SourceFileTypeFile | SourceFileTypeScript | SourceFileTypeSymlink

record DirAttributes =
  da_Name :: gostring
  da_Exact :: bool
  da_Private :: bool

record FileAttributes =
  fa_Type :: SourceFileType
  fa_Name :: gostring
  fa_Empty :: bool
  fa_Encrypted :: bool
  fa_Executable :: bool
  fa_Private :: bool
  fa_Template :: bool
  fa_Once :: bool

record markers =
  exactPrefix :: gostring
  privatePrefix :: gostring
  dotPrefix :: gostring
  emptyPrefix :: gostring
  encryptedPrefix :: gostring
  executablePrefix :: gostring
  oncePrefix :: gostring
  runPrefix :: gostring
  symlinkPrefix :: gostring
  templateSuffix :: gostring

definition chezmoiMarkers :: markers where
  "chezmoiMarkers =
     \<lparr> exactPrefix = S ''exact_'', privatePrefix = S ''private_'', dotPrefix = S ''dot_'',
       emptyPrefix = S ''empty_'', encryptedPrefix = S ''encrypted_'',
       executablePrefix = S ''executable_'', oncePrefix = S ''once_'', runPrefix = S ''run_'',
       symlinkPrefix = S ''symlink_'', templateSuffix = S ''.tmpl'' \<rparr>"

text \<open>
  \<open>mark b m\<close> is the marker \<open>m\<close> when the flag \<open>b\<close> is set; \<open>stripFlag m s\<close>
  reads a flag: whether \<open>s\<close> starts with \<open>m\<close>, and \<open>s\<close> without it.  A leading
  dot (46) of the name is written as the dot marker.
\<close>

definition mark :: "bool \<Rightarrow> gostring \<Rightarrow> gostring" where
  "mark b m = (if b then m else [])"

definition stripFlag :: "gostring \<Rightarrow> gostring \<Rightarrow> bool \<times> gostring" where
  "stripFlag m s = (if prefix m s then (True, drop (length m) s) else (False, s))"

definition isDotName :: "gostring \<Rightarrow> bool" where
  "isDotName name = (case name of [] \<Rightarrow> False | r # rest \<Rightarrow> r = 46)"

definition dotEncode :: "markers \<Rightarrow> gostring \<Rightarrow> gostring" where
  "dotEncode M name = (if isDotName name then dotPrefix M @ tl name else name)"

definition dotDecode :: "markers \<Rightarrow> gostring \<Rightarrow> gostring" where
  "dotDecode M s =
     (if prefix (dotPrefix M) s then 46 # drop (length (dotPrefix M)) s else s)"

definition DirAttributes_SourceName :: "markers \<Rightarrow> DirAttributes \<Rightarrow> gostring" where
  "DirAttributes_SourceName M da =
     mark (da_Exact da) (exactPrefix M) @ mark (da_Private da) (privatePrefix M)
       @ dotEncode M (da_Name da)"

definition ParseDirAttributes :: "markers \<Rightarrow> gostring \<Rightarrow> DirAttributes" where
  "ParseDirAttributes M sourceName =
     (case stripFlag (exactPrefix M) sourceName of
        (exact, s1) \<Rightarrow>
          (case stripFlag (privatePrefix M) s1 of
             (private, s2) \<Rightarrow>
               \<lparr> da_Name = dotDecode M s2, da_Exact = exact, da_Private = private \<rparr>))"

definition typePrefix :: "markers \<Rightarrow> SourceFileType \<Rightarrow> gostring" where
  "typePrefix M t =
     (case t of
        SourceFileTypeFile \<Rightarrow> []
      | SourceFileTypeScript \<Rightarrow> runPrefix M
      | SourceFileTypeSymlink \<Rightarrow> symlinkPrefix M)"

definition stripType :: "markers \<Rightarrow> gostring \<Rightarrow> SourceFileType \<times> gostring" where
  "stripType M s =
     (if prefix (runPrefix M) s then (SourceFileTypeScript, drop (length (runPrefix M)) s)
      else if prefix (symlinkPrefix M) s
        then (SourceFileTypeSymlink, drop (length (symlinkPrefix M)) s)
      else (SourceFileTypeFile, s))"

definition stripTemplate :: "markers \<Rightarrow> gostring \<Rightarrow> bool \<times> gostring" where
  "stripTemplate M s =
     (if suffix (templateSuffix M) s
      then (True, take (length s - length (templateSuffix M)) s)
      else (False, s))"

definition FileAttributes_SourceName :: "markers \<Rightarrow> FileAttributes \<Rightarrow> gostring" where
  "FileAttributes_SourceName M fa =
     typePrefix M (fa_Type fa)
       @ mark (fa_Once fa) (oncePrefix M)
       @ mark (fa_Encrypted fa) (encryptedPrefix M)
       @ mark (fa_Private fa) (privatePrefix M)
       @ mark (fa_Empty fa) (emptyPrefix M)
       @ mark (fa_Executable fa) (executablePrefix M)
       @ dotEncode M (fa_Name fa)
       @ mark (fa_Template fa) (templateSuffix M)"

definition ParseFileAttributes :: "markers \<Rightarrow> gostring \<Rightarrow> FileAttributes" where
  "ParseFileAttributes M sourceName =
     (case stripType M sourceName of (typ, s0) \<Rightarrow>
      case stripFlag (oncePrefix M) s0 of (once, s1) \<Rightarrow>
      case stripFlag (encryptedPrefix M) s1 of (encrypted, s2) \<Rightarrow>
      case stripFlag (privatePrefix M) s2 of (private, s3) \<Rightarrow>
      case stripFlag (emptyPrefix M) s3 of (isEmpty, s4) \<Rightarrow>
      case stripFlag (executablePrefix M) s4 of (executable, s5) \<Rightarrow>
      case stripTemplate M (dotDecode M s5) of (template, name) \<Rightarrow>
        \<lparr> fa_Type = typ, fa_Name = name, fa_Empty = isEmpty, fa_Encrypted = encrypted,
          fa_Executable = executable, fa_Private = private, fa_Template = template,
          fa_Once = once \<rparr>)"

text \<open>
  The domain of the codec.  The grammar is well formed when no prefix marker
  is a prefix of another one.  An attribute value is syntactically valid when
  its name cannot be taken for a marker: unless it starts with a dot, what is
  written for the name does not start with a prefix marker; and the name of a
  file that is not a template does not end with the template suffix.
\<close>

fun pairwiseIncomparable :: "gostring list \<Rightarrow> bool" where
  "pairwiseIncomparable [] = True"
| "pairwiseIncomparable (m # ms) =
     ((\<forall>m' \<in> set ms. \<not> prefix m m' \<and> \<not> prefix m' m) \<and> pairwiseIncomparable ms)"

definition dirMarkers :: "markers \<Rightarrow> gostring list" where
  "dirMarkers M = [exactPrefix M, privatePrefix M, dotPrefix M]"

definition fileMarkers :: "markers \<Rightarrow> gostring list" where
  "fileMarkers M =
     [runPrefix M, symlinkPrefix M, oncePrefix M, encryptedPrefix M, privatePrefix M,
      emptyPrefix M, executablePrefix M, dotPrefix M]"

definition wfMarkers :: "markers \<Rightarrow> bool" where
  "wfMarkers M = (pairwiseIncomparable (dirMarkers M) \<and> pairwiseIncomparable (fileMarkers M))"

definition validDirAttributes :: "markers \<Rightarrow> DirAttributes \<Rightarrow> bool" where
  "validDirAttributes M da =
     (isDotName (da_Name da) \<or> (\<forall>m \<in> set (dirMarkers M). \<not> prefix m (da_Name da)))"

definition validFileAttributes :: "markers \<Rightarrow> FileAttributes \<Rightarrow> bool" where
  "validFileAttributes M fa =
     ((isDotName (fa_Name fa)
        \<or> (\<forall>m \<in> set (fileMarkers M).
              \<not> prefix m (fa_Name fa @ mark (fa_Template fa) (templateSuffix M))))
      \<and> (fa_Template fa \<or> \<not> suffix (templateSuffix M) (fa_Name fa)))"

text \<open>Values of the test in \<^verbatim>\<open>TestDirAttributes\<close> and \<^verbatim>\<open>TestFileAttributes\<close>.\<close>

definition dirAttributes0 :: DirAttributes where
  "dirAttributes0 = \<lparr> da_Name = S ''.dir'', da_Exact = True, da_Private = True \<rparr>"

definition fileAttributes0 :: FileAttributes where
  "fileAttributes0 =
     \<lparr> fa_Type = SourceFileTypeFile, fa_Name = S ''.name'', fa_Empty = True,
       fa_Encrypted = True, fa_Executable = True, fa_Private = True, fa_Template = True,
       fa_Once = False \<rparr>"

definition scriptAttributes0 :: FileAttributes where
  "scriptAttributes0 =
     \<lparr> fa_Type = SourceFileTypeScript, fa_Name = S ''name'', fa_Empty = False,
       fa_Encrypted = False, fa_Executable = False, fa_Private = False, fa_Template = False,
       fa_Once = True \<rparr>"

section \<open>Theorems\<close>

subsection \<open>\<^verbatim>\<open>validateKeys\<close>\<close>

lemma find_append_case:
  "find P (xs @ ys) = (case find P xs of None \<Rightarrow> find P ys | Some x \<Rightarrow> Some x)"
  by (induction xs) auto

lemma firstInvalid_Nil: "firstInvalid re [] = None"
  by (simp add: firstInvalid_def)

lemma firstInvalid_Cons:
  "firstInvalid re (k # ks) = (if \<not> re k then Some (InvalidKey k) else firstInvalid re ks)"
  by (simp add: firstInvalid_def)

lemma firstInvalid_append:
  "firstInvalid re (xs @ ys) =
     (case firstInvalid re xs of None \<Rightarrow> firstInvalid re ys | Some e \<Rightarrow> Some e)"
  by (simp add: firstInvalid_def find_append_case split: option.splits)

lemma firstInvalid_None_iff: "firstInvalid re ks = None \<longleftrightarrow> (\<forall>k \<in> set ks. re k)"
  by (auto simp: firstInvalid_def find_None_iff)

lemma validateKeys_firstInvalid:
  "validateKeys d re = firstInvalid re (keysOf d)"
  "validateKeys_map kvs re = firstInvalid re (concat (map (\<lambda>(k, v). k # keysOf v) kvs))"
  "validateKeys_slice vs re = firstInvalid re (concat (map keysOf vs))"
proof (induction d re and kvs re and vs re
       rule: validateKeys_validateKeys_map_validateKeys_slice.induct)
  case (7 key v kvs re)
  then show ?case
    by (simp add: firstInvalid_Cons firstInvalid_append split: option.splits)
next
  case (9 v vs re)
  then show ?case
    by (simp add: firstInvalid_append split: option.splits)
qed (simp_all add: firstInvalid_Nil)

text \<open>
  Claim C10.  \<^verbatim>\<open>validateKeys\<close> returns nil exactly when every key of every map
  reached from the input through nested string-keyed maps and slices matches
  the regular expression; a value that is neither such a map nor a slice is
  accepted; otherwise the error names the first key, in the order of the
  traversal, that does not match.  With \<open>re = identifierRegexp U\<close> a key
  matches when it is a letter or an underscore followed by letters, digits or
  underscores.
\<close>

theorem validateKeys_nil_iff_all_keys_match:
  "(validateKeys d re = None \<longleftrightarrow> (\<forall>k \<in> set (keysOf d). re k))
   \<and> validateKeys (VString x) re = None
   \<and> validateKeys (VStringMap y) re = None
   \<and> validateKeys (VOther z) re = None
   \<and> validateKeys d re = map_option InvalidKey (find (\<lambda>k. \<not> re k) (keysOf d))
   \<and> (identifierRegexp U s \<longleftrightarrow>
        (\<exists>r rs. s = r # rs \<and> (pL U r \<or> r = underscore)
                \<and> (\<forall>c \<in> set rs. pL U c \<or> pNd U c \<or> c = underscore)))"
proof -
  have a: "validateKeys d re = firstInvalid re (keysOf d)"
    by (rule validateKeys_firstInvalid(1))
  have b: "identifierRegexp U s \<longleftrightarrow>
        (\<exists>r rs. s = r # rs \<and> (pL U r \<or> r = underscore)
                \<and> (\<forall>c \<in> set rs. pL U c \<or> pNd U c \<or> c = underscore))"
    by (cases s) (auto simp: identifierRegexp_def list_all_iff)
  from a b show ?thesis
    by (simp add: firstInvalid_None_iff) (simp add: firstInvalid_def)
qed

theorem validateKeys_witness:
  "validateKeys
     (VMap [(S ''ok_1'', VSlice [VMap [(S ''bad-key'', VOther 0)], VString (S ''x'')]),
            (S ''9x'', VOther 1)])
     (identifierRegexp ascii_tables) = Some (InvalidKey (S ''bad-key''))
   \<and> validateKeys (VMap [(S ''_a1'', VStringMap [(S ''9'', S ''v'')])])
        (identifierRegexp ascii_tables) = None"
  using validateKeys_nil_iff_all_keys_match
     [of "VMap [(S ''ok_1'', VSlice [VMap [(S ''bad-key'', VOther 0)], VString (S ''x'')]),
            (S ''9x'', VOther 1)]" "identifierRegexp ascii_tables"]
     validateKeys_nil_iff_all_keys_match
     [of "VMap [(S ''_a1'', VStringMap [(S ''9'', S ''v'')])]" "identifierRegexp ascii_tables"]
  by (simp add: S_def underscore_def identifierRegexp_def ascii_tables_def)

subsection \<open>\<^verbatim>\<open>upperSnakeCaseToCamelCase\<close>\<close>

declare upperSnakeCaseToCamelCase_loop.simps [simp del]

lemma strings_Split_nonempty: "strings_Split s sep \<noteq> []"
  by (induction s) auto

lemma strings_Join_Cons:
  "ws \<noteq> [] \<Longrightarrow> strings_Join (w # ws) sep = w @ sep @ strings_Join ws sep"
  by (cases ws) auto

lemma strings_Join_Split: "strings_Join (strings_Split s sep) [sep] = s"
proof (induction s)
  case Nil
  then show ?case by simp
next
  case (Cons c cs)
  obtain w ws where sp: "strings_Split cs sep = w # ws"
    using strings_Split_nonempty [of cs sep] by (cases "strings_Split cs sep") auto
  with Cons show ?case
    by (cases ws) (auto)
qed

lemma strings_Split_no_sep: "w \<in> set (strings_Split s sep) \<Longrightarrow> sep \<notin> set w"
proof (induction s arbitrary: w)
  case Nil
  then show ?case by simp
next
  case (Cons c cs)
  obtain x xs where sp: "strings_Split cs sep = x # xs"
    using strings_Split_nonempty [of cs sep] by (cases "strings_Split cs sep") auto
  with Cons show ?case
    by (auto split: if_splits)
qed

lemma strings_Join_empty_sep: "strings_Join ws [] = concat ws"
  by (induction ws "[] :: gostring" rule: strings_Join.induct) auto

lemma loop_tail:
  "0 < i \<Longrightarrow> upperSnakeCaseToCamelCase_loop U i words =
      take i words @ map (camelWord U) (drop i words)"
proof (induction U i words rule: upperSnakeCaseToCamelCase_loop.induct)
  case (1 U i words)
  show ?case
  proof (cases "i < length words")
    case False
    then show ?thesis
      by (subst upperSnakeCaseToCamelCase_loop.simps) simp
  next
    case True
    have d: "drop i words = words ! i # drop (Suc i) words"
      using True by (simp add: Cons_nth_drop_Suc)
    show ?thesis
    proof (cases "isWellKnownAbbreviation (words ! i)")
      case True
      with 1 \<open>i < length words\<close> d show ?thesis
        by (subst upperSnakeCaseToCamelCase_loop.simps)
           (simp add: camelWord_def take_Suc_conv_app_nth)
    next
      case False
      with 1 \<open>i < length words\<close> d show ?thesis
        by (subst upperSnakeCaseToCamelCase_loop.simps)
           (simp add: camelWord_def take_Suc_conv_app_nth)
    qed
  qed
qed

lemma loop_head:
  "upperSnakeCaseToCamelCase_loop U 0 (w # ws) =
     strings_ToLower U w # map (camelWord U) ws"
  by (subst upperSnakeCaseToCamelCase_loop.simps) (simp add: loop_tail)

lemma map_loop:
  "map_of (upperSnakeCaseToCamelCaseMap_loop U m acc) =
     map_of acc ++ map_of (rev (map (\<lambda>(k, v). (upperSnakeCaseToCamelCase U k, v)) m))"
proof (induction m arbitrary: acc)
  case Nil
  then show ?case by simp
next
  case (Cons kv m)
  obtain k v where kv: "kv = (k, v)" by (cases kv)
  show ?case
    by (rule ext) (simp add: kv Cons update_conv' map_add_def split: option.splits)
qed

lemma strings_Join_sep:
  "strings_Join (w # ws) [sep] = w @ concat (map ((#) sep) ws)"
  by (induction ws arbitrary: w) simp_all

lemma camelWord_unfolded:
  "camelWord U word =
     (if word \<in> {map of_char ''ANSI'', map of_char ''CPE'', map of_char ''ID'',
                  map of_char ''URL''} then word
      else case map (ToLower U) word of [] \<Rightarrow> [] | r # runes \<Rightarrow> ToTitle U r # runes)"
  by (cases "map (ToLower U) word")
     (simp_all add: camelWord_def isWellKnownAbbreviation_def wellKnownAbbreviations_def
        strings_ToLower_def S_def)

text \<open>
  Claim C8.  \<^verbatim>\<open>upperSnakeCaseToCamelCase\<close> splits its argument at the
  underscores: the words \<open>w # ws\<close>, put together with an underscore before
  every word but the first, are the argument, and no word holds an
  underscore.  The result is the first word with every rune mapped by
  \<^verbatim>\<open>unicode.ToLower\<close>, followed by the later words in order, nothing between
  them, where a later word that is one of \<^verbatim>\<open>ANSI\<close>, \<^verbatim>\<open>CPE\<close>, \<^verbatim>\<open>ID\<close>, \<^verbatim>\<open>URL\<close>
  stands as it is and every other later word has every rune mapped by
  \<^verbatim>\<open>unicode.ToLower\<close> and then its first rune mapped by \<^verbatim>\<open>unicode.ToTitle\<close>
  (an empty word stays empty).  \<^verbatim>\<open>upperSnakeCaseToCamelCaseMap\<close> has exactly
  the transformed keys; each of its values is the value of an entry whose
  transformed key it sits under; and an entry whose transformed key is shared
  only with entries of the same value keeps its value.
\<close>

theorem upperSnakeCaseToCamelCase_words:
  "(\<exists>w ws. strings_Split s (of_char CHR ''_'') = w # ws
       \<and> w @ concat (map ((#) (of_char CHR ''_'')) ws) = s
       \<and> (\<forall>x \<in> set (w # ws). of_char CHR ''_'' \<notin> set x)
       \<and> upperSnakeCaseToCamelCase U s =
             map (ToLower U) w @
             concat (map (\<lambda>word.
                 if word \<in> {map of_char ''ANSI'', map of_char ''CPE'', map of_char ''ID'',
                              map of_char ''URL''} then word
                 else case map (ToLower U) word of
                        [] \<Rightarrow> []
                      | r # runes \<Rightarrow> ToTitle U r # runes) ws))
   \<and> fst ` set (upperSnakeCaseToCamelCaseMap U m) = upperSnakeCaseToCamelCase U ` fst ` set m
   \<and> (\<forall>k' v. map_of (upperSnakeCaseToCamelCaseMap U m) k' = Some v \<longrightarrow>
          (\<exists>k. (k, v) \<in> set m \<and> upperSnakeCaseToCamelCase U k = k'))
   \<and> (\<forall>(k, v) \<in> set m.
          (\<forall>(k2, v2) \<in> set m.
              upperSnakeCaseToCamelCase U k2 = upperSnakeCaseToCamelCase U k \<longrightarrow> v2 = v) \<longrightarrow>
          map_of (upperSnakeCaseToCamelCaseMap U m) (upperSnakeCaseToCamelCase U k) = Some v)"
proof -
  let ?f = "upperSnakeCaseToCamelCase U"
  let ?r = "upperSnakeCaseToCamelCaseMap U m"
  let ?g = "\<lambda>(k, v). (?f k, v)"
  let ?word = "\<lambda>word.
                 if word \<in> {map of_char ''ANSI'', map of_char ''CPE'', map of_char ''ID'',
                              map of_char ''URL''} then word
                 else case map (ToLower U) word of
                        [] \<Rightarrow> []
                      | r # runes \<Rightarrow> ToTitle U r # runes"
  have u: "underscore = of_char CHR ''_''"
    by (simp add: underscore_def)
  obtain w ws where sp: "strings_Split s underscore = w # ws"
    using strings_Split_nonempty [of s underscore]
    by (cases "strings_Split s underscore") auto
  have j: "w @ concat (map ((#) underscore) ws) = s"
    using strings_Join_Split [of s underscore] by (simp add: sp strings_Join_sep)
  have n: "\<forall>x \<in> set (w # ws). underscore \<notin> set x"
    using strings_Split_no_sep [of _ s underscore] by (simp add: sp)
  have c0: "?f s = map (ToLower U) w @ concat (map (camelWord U) ws)"
    by (simp add: upperSnakeCaseToCamelCase_def sp loop_head strings_Join_empty_sep
        strings_ToLower_def)
  have c: "?f s = map (ToLower U) w @ concat (map ?word ws)"
    unfolding c0
    by (rule arg_cong [where f = "\<lambda>g. map (ToLower U) w @ concat (map g ws)"])
       (rule ext, rule camelWord_unfolded)
  have first: "\<exists>w ws. strings_Split s (of_char CHR ''_'') = w # ws
       \<and> w @ concat (map ((#) (of_char CHR ''_'')) ws) = s
       \<and> (\<forall>x \<in> set (w # ws). of_char CHR ''_'' \<notin> set x)
       \<and> ?f s = map (ToLower U) w @ concat (map ?word ws)"
    using sp j n c unfolding u by (intro exI [of _ w] exI [of _ ws] conjI)
  have mo: "map_of ?r = map_of (rev (map ?g m))"
    by (simp add: upperSnakeCaseToCamelCaseMap_def map_loop)
  have "fst ` set ?r = dom (map_of ?r)"
    by (simp add: dom_map_of_conv_image_fst)
  also have "\<dots> = fst ` set (rev (map ?g m))"
    by (simp only: mo dom_map_of_conv_image_fst)
  also have "\<dots> = ?f ` fst ` set m"
    by force
  finally have keys: "fst ` set ?r = ?f ` fst ` set m" .
  have bk: "\<exists>k. (k, v) \<in> set m \<and> ?f k = k'" if "map_of ?r k' = Some v" for k' v
  proof -
    from that have "(k', v) \<in> set (rev (map ?g m))"
      by (simp only: mo) (rule map_of_SomeD)
    then show ?thesis by auto
  qed
  have forth: "map_of ?r (?f k) = Some v"
    if kv: "(k, v) \<in> set m"
    and uniq: "\<forall>(k2, v2) \<in> set m. ?f k2 = ?f k \<longrightarrow> v2 = v" for k v
  proof -
    from kv have "?f k \<in> fst ` set ?r"
      by (simp only: keys) force
    then have "?f k \<in> dom (map_of ?r)"
      by (simp add: dom_map_of_conv_image_fst)
    then obtain v' where v': "map_of ?r (?f k) = Some v'" by blast
    from bk [OF v'] obtain k2 where "(k2, v') \<in> set m" "?f k2 = ?f k" by blast
    with uniq have "v' = v" by blast
    with v' show ?thesis by simp
  qed
  have forth': "\<forall>(k, v) \<in> set m.
          (\<forall>(k2, v2) \<in> set m. ?f k2 = ?f k \<longrightarrow> v2 = v) \<longrightarrow>
          map_of ?r (?f k) = Some v"
    using forth by (intro ballI) (simp only: split_paired_all prod.case, intro impI, assumption+)
  have bk': "\<forall>k' v. map_of ?r k' = Some v \<longrightarrow> (\<exists>k. (k, v) \<in> set m \<and> ?f k = k')"
    using bk by (intro allI impI)
  show ?thesis
    by (intro conjI) (rule first, rule keys, rule bk', rule forth')
qed

theorem upperSnakeCaseToCamelCase_words_witness:
  "upperSnakeCaseToCamelCase ascii_tables (map of_char ''PRETTY_NAME'') = map of_char ''prettyName''
   \<and> upperSnakeCaseToCamelCase ascii_tables (map of_char ''HOME_URL'') = map of_char ''homeURL''
   \<and> upperSnakeCaseToCamelCase ascii_tables (map of_char ''ID_LIKE'') = map of_char ''idLike''
   \<and> upperSnakeCaseToCamelCase ascii_tables (map of_char ''URL_id'') = map of_char ''urlId''
   \<and> map_of (upperSnakeCaseToCamelCaseMap ascii_tables
               [(map of_char ''PRETTY_NAME'', map of_char ''Debian''),
                (map of_char ''HOME_URL'', map of_char ''https'')])
        (map of_char ''prettyName'') = Some (map of_char ''Debian'')
   \<and> fst ` set (upperSnakeCaseToCamelCaseMap ascii_tables
               [(map of_char ''PRETTY_NAME'', map of_char ''Debian''),
                (map of_char ''HOME_URL'', map of_char ''https'')])
        = {map of_char ''prettyName'', map of_char ''homeURL''}"
proof -
  let ?f = "upperSnakeCaseToCamelCase ascii_tables"
  let ?m = "[(map of_char ''PRETTY_NAME'', map of_char ''Debian''),
             (map of_char ''HOME_URL'', map of_char ''https'')]"
  have p: "?f (map of_char ''PRETTY_NAME'') = map of_char ''prettyName''"
    using upperSnakeCaseToCamelCase_words [of "map of_char ''PRETTY_NAME''" ascii_tables "[]"]
    by (simp add: ascii_tables_def)
  have h: "?f (map of_char ''HOME_URL'') = map of_char ''homeURL''"
    using upperSnakeCaseToCamelCase_words [of "map of_char ''HOME_URL''" ascii_tables "[]"]
    by (simp add: ascii_tables_def)
  have i: "?f (map of_char ''ID_LIKE'') = map of_char ''idLike''"
    using upperSnakeCaseToCamelCase_words [of "map of_char ''ID_LIKE''" ascii_tables "[]"]
    by (simp add: ascii_tables_def)
  have u: "?f (map of_char ''URL_id'') = map of_char ''urlId''"
    using upperSnakeCaseToCamelCase_words [of "map of_char ''URL_id''" ascii_tables "[]"]
    by (simp add: ascii_tables_def)
  note m = upperSnakeCaseToCamelCase_words [of "[]" ascii_tables ?m]
  have keys: "fst ` set (upperSnakeCaseToCamelCaseMap ascii_tables ?m) =
      {map of_char ''prettyName'', map of_char ''homeURL''}"
    unfolding m [THEN conjunct2, THEN conjunct1] by (simp only: p h list.set image_insert
        image_empty fst_conv)
  have v: "map_of (upperSnakeCaseToCamelCaseMap ascii_tables ?m) (map of_char ''prettyName'') =
      Some (map of_char ''Debian'')"
    using m [THEN conjunct2, THEN conjunct2, THEN conjunct2]
    by (simp add: p [simplified] h [simplified])
  show ?thesis
    by (intro conjI) (rule p, rule h, rule i, rule u, rule v, rule keys)
qed

subsection \<open>\<^verbatim>\<open>addTemplateFunc\<close>\<close>

text \<open>
  Claim C7.  \<^verbatim>\<open>addTemplateFunc\<close> panics when the key is already in the
  function registry; when the key is fresh it does not panic and the registry
  afterwards is the old one with the key bound to the value, nothing else of
  the configuration changed; a nil registry is allocated first.
\<close>

theorem addTemplateFunc_panics_iff_defined:
  "(key \<in> dom (registry c) \<longrightarrow>
      addTemplateFunc c key v =
        Inl (Panic (S ''Config.addTemplateFunc: '' @ key @ S '' already defined'')))
   \<and> (key \<notin> dom (registry c) \<longrightarrow>
        (case addTemplateFunc c key v of
           Inl p \<Rightarrow> False
         | Inr c' \<Rightarrow> registry c' = (registry c)(key \<mapsto> v)
                    \<and> c' = c\<lparr>templateFuncs := templateFuncs c'\<rparr>))
   \<and> (templateFuncs c = None \<longrightarrow>
        addTemplateFunc c key v = Inr (c\<lparr>templateFuncs := Some [(key, v)]\<rparr>))"
proof (cases "templateFuncs c")
  case None
  then show ?thesis
    by (simp add: addTemplateFunc_def registry_def)
next
  case (Some funcs)
  then show ?thesis
    by (simp add: addTemplateFunc_def registry_def update_conv' domIff)
qed

lemma config0_templateFuncs: "templateFuncs config0 = None"
  by (simp add: config0_def)

theorem addTemplateFunc_witness:
  "addTemplateFunc config0 (S ''f'') (VOther 1)
     = Inr (config0\<lparr>templateFuncs := Some [(S ''f'', VOther 1)]\<rparr>)
   \<and> addTemplateFunc (config0\<lparr>templateFuncs := Some [(S ''f'', VOther 1)]\<rparr>) (S ''f'') (VOther 2)
     = Inl (Panic (S ''Config.addTemplateFunc: f already defined''))"
  using addTemplateFunc_panics_iff_defined [of "S ''f''" config0 "VOther 1"]
    addTemplateFunc_panics_iff_defined
      [of "S ''f''" "config0\<lparr>templateFuncs := Some [(S ''f'', VOther 1)]\<rparr>" "VOther 2"]
  by (simp add: registry_def config0_templateFuncs S_def)

subsection \<open>\<^verbatim>\<open>TARSystem\<close>\<close>

text \<open>
  Claim C9.  \<^verbatim>\<open>TARSystem.Chmod\<close>, \<^verbatim>\<open>RemoveAll\<close> and \<^verbatim>\<open>Rename\<close> return
  \<^verbatim>\<open>os.ErrPermission\<close> on every input and leave the archive as it is.
  \<^verbatim>\<open>RunScript\<close> runs nothing: all it does is hand the archive writer one
  header, the template with type flag \<^verbatim>\<open>TypeReg\<close>, the script's name, the
  length of its body and mode 0700 (448), and then, unless writing the header
  failed, the body.
\<close>

theorem TARSystem_refuses_mutation_and_archives_scripts:
  "TARSystem_Chmod s name mode = (Some ErrPermission, s)
   \<and> TARSystem_RemoveAll s name = (Some ErrPermission, s)
   \<and> TARSystem_Rename s oldpath newpath = (Some ErrPermission, s)
   \<and> TARSystem_RunScript T s name data = TARSystem_WriteFile T s name data 448
   \<and> TARSystem_RunScript T s name data =
       (case WriteHeader T
               ((headerTemplate s)\<lparr>Typeflag := tar_TypeReg, Name := name,
                                   Size := of_nat (length data), Mode := 448\<rparr>)
               (tarw s) of
          (Some err, tw') \<Rightarrow> (Some err, s\<lparr>tarw := tw'\<rparr>)
        | (None, tw') \<Rightarrow>
            (snd (fst (Write T data tw')), s\<lparr>tarw := snd (Write T data tw')\<rparr>))"
  by (simp add: TARSystem_Chmod_def TARSystem_RemoveAll_def TARSystem_Rename_def
      TARSystem_RunScript_def TARSystem_WriteFile_def split: prod.splits option.splits)

theorem TARSystem_witness:
  "TARSystem_RunScript listWriter \<lparr> tarw = [], headerTemplate = header0 \<rparr> (S ''run.sh'') [35, 33]
     = (None, \<lparr> tarw = [(header0\<lparr>Typeflag := 48, Name := S ''run.sh'', Size := 2, Mode := 448\<rparr>,
                          [35, 33])],
                headerTemplate = header0 \<rparr>)
   \<and> TARSystem_Chmod \<lparr> tarw = [] :: (tar_Header \<times> 8 word list) list, headerTemplate = header0 \<rparr>
        (S ''run.sh'') 420
     = (Some ErrPermission, \<lparr> tarw = [], headerTemplate = header0 \<rparr>)"
  using TARSystem_refuses_mutation_and_archives_scripts
    [of "\<lparr> tarw = [] :: (tar_Header \<times> 8 word list) list, headerTemplate = header0 \<rparr>"
        "S ''run.sh''" 420 "[]" "[]" listWriter "[35, 33]"]
  by (simp add: listWriter_def tar_TypeReg_def TARSystem_RunScript_def)

subsection \<open>\<^verbatim>\<open>getPersistentState\<close>\<close>

text \<open>
  Claim C2.  When \<^verbatim>\<open>DryRun\<close> is set, \<^verbatim>\<open>getPersistentState\<close> opens the store
  with options whose \<^verbatim>\<open>ReadOnly\<close> field is true: the options passed in with
  that field overwritten, or the empty options value with it when nil was
  passed in.  So, for a store that honours the option, every write attempted on
  the persistent state it returns fails with an error.  Without \<^verbatim>\<open>DryRun\<close> the
  options are passed on as they are.
\<close>

theorem getPersistentState_dry_run_read_only:
  "(DryRun c \<longrightarrow>
      getPersistentState E c options w =
        NewBoltPersistentState E (fs c) (getPersistentStateFile E c w) (word_of_int (Umask c))
          (Some ((case options of None \<Rightarrow> bolt_Options_zero | Some opts \<Rightarrow> opts)
                   \<lparr>ReadOnly := True\<rparr>)) w
      \<and> getPersistentState E c None w =
        NewBoltPersistentState E (fs c) (getPersistentStateFile E c w) (word_of_int (Umask c))
          (Some (bolt_Options_zero\<lparr>ReadOnly := True\<rparr>)) w
      \<and> (readOnlyStoreRefusesWrites E \<longrightarrow>
           (\<forall>ps w1 bucket key v w2.
              getPersistentState E c options w = (Inr ps, w1) \<longrightarrow>
              fst (PersistentState_Set E ps bucket key v w2) \<noteq> None)))
   \<and> (\<not> DryRun c \<longrightarrow>
        getPersistentState E c options w =
          NewBoltPersistentState E (fs c) (getPersistentStateFile E c w) (word_of_int (Umask c))
            options w)"
proof -
  let ?ro = "(case options of None \<Rightarrow> bolt_Options_zero | Some opts \<Rightarrow> opts)\<lparr>ReadOnly := True\<rparr>"
  have a: "getPersistentState E c options w =
        NewBoltPersistentState E (fs c) (getPersistentStateFile E c w) (word_of_int (Umask c))
          (Some ?ro) w" if "DryRun c"
    using that by (simp add: getPersistentState_def getPersistentState_options_def)
  have b: "getPersistentState E c None w =
        NewBoltPersistentState E (fs c) (getPersistentStateFile E c w) (word_of_int (Umask c))
          (Some (bolt_Options_zero\<lparr>ReadOnly := True\<rparr>)) w" if "DryRun c"
    using that by (simp add: getPersistentState_def getPersistentState_options_def)
  have r: "ReadOnly ?ro" by simp
  have s: "fst (PersistentState_Set E ps bucket key v w2) \<noteq> None"
    if "DryRun c" "readOnlyStoreRefusesWrites E"
      "getPersistentState E c options w = (Inr ps, w1)" for ps w1 bucket key v w2
  proof -
    from that(1,3) have "NewBoltPersistentState E (fs c) (getPersistentStateFile E c w)
        (word_of_int (Umask c)) (Some ?ro) w = (Inr ps, w1)"
      by (simp only: a)
    with that(2) r show ?thesis
      unfolding readOnlyStoreRefusesWrites_def by blast
  qed
  have d: "getPersistentState E c options w =
          NewBoltPersistentState E (fs c) (getPersistentStateFile E c w) (word_of_int (Umask c))
            options w" if "\<not> DryRun c"
    using that by (simp add: getPersistentState_def getPersistentState_options_def)
  from a b s d show ?thesis by blast
qed

lemma env0_readOnlyStoreRefusesWrites: "readOnlyStoreRefusesWrites (env0 mv)"
  by (simp add: readOnlyStoreRefusesWrites_def env0_def)

lemma config0_DryRun: "DryRun config0"
  by (simp add: config0_def)

theorem getPersistentState_witness:
  "DryRun config0 \<and> readOnlyStoreRefusesWrites (env0 None)
   \<and> getPersistentState (env0 None) config0 None [] = (Inr (PersistentState 1), [])
   \<and> fst (PersistentState_Set (env0 None) (PersistentState 1) [1] [2] [3] []) \<noteq> None"
proof -
  have g: "getPersistentState (env0 None) config0 None [] = (Inr (PersistentState 1), [])"
    by (simp add: getPersistentState_def getPersistentState_options_def config0_DryRun env0_def)
  from getPersistentState_dry_run_read_only [of config0 "env0 None" None "[]"]
    config0_DryRun env0_readOnlyStoreRefusesWrites [of None] g
  have "fst (PersistentState_Set (env0 None) (PersistentState 1) [1] [2] [3] []) \<noteq> None"
    by blast
  with config0_DryRun env0_readOnlyStoreRefusesWrites [of None] g show ?thesis
    by blast
qed

subsection \<open>\<^verbatim>\<open>getTargetState\<close>\<close>

lemma applyArgs_getTargetState_error:
  "getTargetState E c None w = ((Inl err, c1), w1) \<Longrightarrow>
   applyArgs E c args ps w = ((Some err, c1), w1)"
  by (simp add: applyArgs_def)

text \<open>
  Claim C3.  Let the source state be built: everything \<^verbatim>\<open>getTargetState\<close> does
  up to and including \<^verbatim>\<open>Populate\<close> succeeds and gives the target state
  \<open>ts\<close>.  If \<open>ts\<close> has a minimum version and the version of the running
  program is less, \<^verbatim>\<open>getTargetState\<close> returns the version error and no target
  state, and \<^verbatim>\<open>applyArgs\<close> returns that error without a call after
  \<^verbatim>\<open>Populate\<close> (the world is as \<^verbatim>\<open>Populate\<close> left it, no entry is applied).
  If \<open>ts\<close> has no minimum version, \<^verbatim>\<open>getTargetState\<close> returns \<open>ts\<close>.  A
  target state that \<^verbatim>\<open>getTargetState\<close> returns always passes the check.
\<close>

theorem getTargetState_minimum_version_gate:
  assumes "getTargetState_populate E c po w = ((Inr ts, c1), w1)"
  shows "(Version E = Some v \<and> ts_MinVersion ts = Some m \<and> LessThan E v m \<longrightarrow>
            getTargetState E c po w = ((Inl (VersionTooOld v m), c1), w1)
            \<and> (po = None \<longrightarrow> applyArgs E c args ps w = ((Some (VersionTooOld v m), c1), w1)))
         \<and> (ts_MinVersion ts = None \<longrightarrow> getTargetState E c po w = ((Inr ts, c1), w1))
         \<and> (\<forall>ts' c' w'. getTargetState E c po w = ((Inr ts', c'), w') \<longrightarrow>
               ts' = ts \<and> \<not> (\<exists>v' m'. Version E = Some v' \<and> ts_MinVersion ts' = Some m'
                                    \<and> LessThan E v' m'))"
proof -
  have old: "getTargetState E c po w = ((Inl (VersionTooOld v m), c1), w1)"
    if "Version E = Some v" "ts_MinVersion ts = Some m" "LessThan E v m"
    using assms that by (simp add: getTargetState_def versionGate_def)
  have app: "applyArgs E c args ps w = ((Some (VersionTooOld v m), c1), w1)"
    if "Version E = Some v" "ts_MinVersion ts = Some m" "LessThan E v m" "po = None"
    using old [OF that(1-3)] that(4) by (simp add: applyArgs_getTargetState_error)
  have none: "getTargetState E c po w = ((Inr ts, c1), w1)" if "ts_MinVersion ts = None"
    using assms that by (simp add: getTargetState_def versionGate_def split: option.splits)
  have sound: "ts' = ts \<and> \<not> (\<exists>v' m'. Version E = Some v' \<and> ts_MinVersion ts' = Some m'
                                    \<and> LessThan E v' m')"
    if "getTargetState E c po w = ((Inr ts', c'), w')" for ts' c' w'
    using assms that
    by (auto simp: getTargetState_def versionGate_def split: option.splits if_splits)
  from old app none sound show ?thesis
    by blast
qed

lemma host_env0: "\<exists>data. getDefaultData_host (env0 mv) config0 w = Inr data"
  by (simp add: getDefaultData_host_def env0_def)

lemma getDefaultData_env0: "\<exists>data. getDefaultData (env0 mv) config0 w = (Inr data, w)"
proof -
  obtain data where h: "getDefaultData_host (env0 mv) config0 w = Inr data"
    using host_env0 by blast
  have o: "getOSRelease (env0 mv) = (\<lambda>h w. (Inr None, w))"
    and k: "getKernelInfo (env0 mv) = (\<lambda>h w. (Inr None, w))"
    by (simp_all add: env0_def)
  show ?thesis
    by (simp add: getDefaultData_def h o k)
qed

lemma getData_env0: "\<exists>data. getData (env0 mv) config0 w = (Inr data, w)"
proof -
  obtain data where h: "getDefaultData (env0 mv) config0 w = (Inr data, w)"
    using getDefaultData_env0 by blast
  show ?thesis
    by (simp add: getData_def h)
qed


lemma getTargetState_populate_env0:
  "\<exists>ts. getTargetState_populate (env0 mv) config0 None w = ((Inr ts, config0), w)
        \<and> ts_MinVersion ts = mv \<and> ts_Entries ts = [Entry 1, Entry 2, Entry 3]"
proof -
  obtain data where d: "getData (env0 mv) config0 w = (Inr data, w)"
    using getData_env0 by blast
  have g: "GPGRecipient config0 = []" and dd: "DestDir config0 = S ''/home''"
    by (simp_all add: config0_def)
  have a: "filepath_Abs (env0 mv) = (\<lambda>p w. Inr p)"
    and p: "Populate (env0 mv) = (\<lambda>ts h po w.
          ((None, ts\<lparr>ts_Entries := [Entry 1, Entry 2, Entry 3], ts_MinVersion := mv\<rparr>), w))"
    by (simp_all add: env0_def)
  let ?ts = "(NewTargetState (S ''/home'') (GPG config0) (SourceDir config0) data
                (templateFuncs config0) (Options (Template config0)) (word_of_int (Umask config0)))
             \<lparr>ts_Entries := [Entry 1, Entry 2, Entry 3], ts_MinVersion := mv\<rparr>"
  have e: "getTargetState_populate (env0 mv) config0 None w = ((Inr ?ts, config0), w)"
    by (simp add: getTargetState_populate_def d g dd a p)
  have f: "ts_MinVersion ?ts = mv" "ts_Entries ?ts = [Entry 1, Entry 2, Entry 3]"
    by simp_all
  from e f show ?thesis
    by (intro exI [of _ ?ts] conjI)
qed

theorem getTargetState_witness:
  "fst (fst (getTargetState (env0 (Some (SemVer 2 0 0 []))) config0 None []))
     = Inl (VersionTooOld (SemVer 1 8 0 []) (SemVer 2 0 0 []))
   \<and> applyArgs (env0 (Some (SemVer 2 0 0 []))) config0 [S ''a''] (PersistentState 0) []
     = ((Some (VersionTooOld (SemVer 1 8 0 []) (SemVer 2 0 0 [])), config0), [])
   \<and> (case fst (fst (getTargetState (env0 None) config0 None [])) of
         Inl err \<Rightarrow> False
       | Inr ts \<Rightarrow> ts_Entries ts = [Entry 1, Entry 2, Entry 3])"
proof -
  obtain ts where p: "getTargetState_populate (env0 (Some (SemVer 2 0 0 []))) config0 None []
        = ((Inr ts, config0), [])"
    and m: "ts_MinVersion ts = Some (SemVer 2 0 0 [])"
    using getTargetState_populate_env0 [of "Some (SemVer 2 0 0 [])" "[]"] by (elim exE conjE)
  obtain ts' where p': "getTargetState_populate (env0 None) config0 None [] = ((Inr ts', config0), [])"
    and m': "ts_MinVersion ts' = None" and e': "ts_Entries ts' = [Entry 1, Entry 2, Entry 3]"
    using getTargetState_populate_env0 [of None "[]"] by (elim exE conjE)
  have v: "Version (env0 (Some (SemVer 2 0 0 []))) = Some (SemVer 1 8 0 [])"
    and l: "LessThan (env0 (Some (SemVer 2 0 0 []))) (SemVer 1 8 0 []) (SemVer 2 0 0 [])"
    by (simp_all add: env0_def)
  have pre: "Version (env0 (Some (SemVer 2 0 0 []))) = Some (SemVer 1 8 0 [])
      \<and> ts_MinVersion ts = Some (SemVer 2 0 0 [])
      \<and> LessThan (env0 (Some (SemVer 2 0 0 []))) (SemVer 1 8 0 []) (SemVer 2 0 0 [])"
    using v m l by (intro conjI)
  note g = getTargetState_minimum_version_gate
         [OF p, of "SemVer 1 8 0 []" "SemVer 2 0 0 []" "[S ''a'']" "PersistentState 0"]
  note g1 = g [THEN conjunct1, THEN mp, OF pre]
  have a: "getTargetState (env0 (Some (SemVer 2 0 0 []))) config0 None []
             = ((Inl (VersionTooOld (SemVer 1 8 0 []) (SemVer 2 0 0 [])), config0), [])"
    by (rule g1 [THEN conjunct1])
  have b: "applyArgs (env0 (Some (SemVer 2 0 0 []))) config0 [S ''a''] (PersistentState 0) []
     = ((Some (VersionTooOld (SemVer 1 8 0 []) (SemVer 2 0 0 [])), config0), [])"
    by (rule g1 [THEN conjunct2, THEN mp]) (rule refl)
  note g' = getTargetState_minimum_version_gate
         [OF p', of "SemVer 1 8 0 []" "SemVer 2 0 0 []" "[]" "PersistentState 0"]
  have c: "getTargetState (env0 None) config0 None [] = ((Inr ts', config0), [])"
    by (rule g' [THEN conjunct2, THEN conjunct1, THEN mp]) (rule m')
  have a': "fst (fst (getTargetState (env0 (Some (SemVer 2 0 0 []))) config0 None []))
     = Inl (VersionTooOld (SemVer 1 8 0 []) (SemVer 2 0 0 []))"
    by (simp only: a fst_conv)
  have c': "(case fst (fst (getTargetState (env0 None) config0 None [])) of
         Inl err \<Rightarrow> False
       | Inr ts \<Rightarrow> ts_Entries ts = [Entry 1, Entry 2, Entry 3])"
    by (simp only: c fst_conv sum.case e')
  from a' b c' show ?thesis
    by (intro conjI)
qed

subsection \<open>\<^verbatim>\<open>applyArgs\<close>\<close>

lemma applyArgs_loop_abort:
  "applyArgs_loop E pre fs0 m follow ao w = (None, w3) \<Longrightarrow>
   Entry_Apply E e fs0 m follow ao w3 = (Some err, w4) \<Longrightarrow>
   applyArgs_loop E (pre @ e # post) fs0 m follow ao w = (Some err, w4)"
proof (induction pre arbitrary: w)
  case Nil
  then show ?case by simp
next
  case (Cons x pre)
  then show ?case
    by (cases "Entry_Apply E x fs0 m follow ao w")
       (auto split: option.splits)
qed

lemma TargetState_Apply_loop_append:
  "TargetState_Apply_loop E (xs @ ys) fs0 m follow ao errs w =
     (case TargetState_Apply_loop E xs fs0 m follow ao errs w of
        (errs1, w1) \<Rightarrow> TargetState_Apply_loop E ys fs0 m follow ao errs1 w1)"
proof (induction xs arbitrary: errs w)
  case Nil
  then show ?case by simp
next
  case (Cons x xs)
  then show ?case
    by (cases "Entry_Apply E x fs0 m follow ao w")
       (auto split: option.splits)
qed

lemma TargetState_Apply_loop_keeps_errors:
  "TargetState_Apply_loop E xs fs0 m follow ao errs w = (errs', w') \<Longrightarrow> set errs \<subseteq> set errs'"
proof (induction xs arbitrary: errs w)
  case Nil
  then show ?case by simp
next
  case (Cons x xs)
  show ?case
  proof (cases "Entry_Apply E x fs0 m follow ao w")
    case (Pair r w1)
    show ?thesis
    proof (cases r)
      case None
      with Cons Pair show ?thesis by simp
    next
      case (Some err)
      with Cons.prems Pair
      have "TargetState_Apply_loop E xs fs0 m follow ao (errs @ [err])
              (reportFailure E x err w1) = (errs', w')"
        by simp
      from Cons.IH [OF this] show ?thesis by simp
    qed
  qed
qed

text \<open>
  Claim C4.  Let \<^verbatim>\<open>getTargetState\<close> succeed.  With a non-empty list of named
  targets resolved to the entries \<open>pre @ e # post\<close>, if the entries of \<open>pre\<close>
  apply without error and \<open>e\<close> fails, \<^verbatim>\<open>applyArgs\<close> returns the error of
  \<open>e\<close> with the world as \<open>e\<close> left it, whatever \<open>post\<close> is: no entry of
  \<open>post\<close> is applied.  With no named target the run is \<^verbatim>\<open>TargetState.Apply\<close>:
  when \<open>e\<close> fails there, the failure is reported, the loop goes on with
  \<open>post\<close>, and the run ends with an error that holds the error of \<open>e\<close>.
\<close>

theorem applyArgs_named_aborts_batch_continues:
  assumes "getTargetState E c None w = ((Inr ts, c1), w1)"
  shows
    "(args \<noteq> []
        \<and> getEntries E c1 ts args w1 = (Inr (pre @ e # post), w2)
        \<and> applyArgs_loop E pre (ReadOnlyFS (fs c)) (mutator c1) (Follow c1)
              (applyOptionsOf c1 ts ps) w2 = (None, w3)
        \<and> Entry_Apply E e (ReadOnlyFS (fs c)) (mutator c1) (Follow c1)
              (applyOptionsOf c1 ts ps) w3 = (Some err, w4)
      \<longrightarrow> applyArgs E c args ps w = ((Some err, c1), w4))
     \<and> (ts_Entries ts = pre @ e # post
        \<and> TargetState_Apply_loop E pre (ReadOnlyFS (fs c)) (mutator c1) (Follow c1)
              (applyOptionsOf c1 ts ps) [] w1 = (errs, w3)
        \<and> Entry_Apply E e (ReadOnlyFS (fs c)) (mutator c1) (Follow c1)
              (applyOptionsOf c1 ts ps) w3 = (Some err, w4)
      \<longrightarrow> (\<exists>errs' w5.
             TargetState_Apply_loop E post (ReadOnlyFS (fs c)) (mutator c1) (Follow c1)
               (applyOptionsOf c1 ts ps) (errs @ [err]) (reportFailure E e err w4) = (errs', w5)
             \<and> err \<in> set errs'
             \<and> applyArgs E c [] ps w = ((Some (EntriesFailed errs'), c1), w5)))"
proof -
  let ?ro = "ReadOnlyFS (fs c)"
  let ?ao = "applyOptionsOf c1 ts ps"
  have named: "applyArgs E c args ps w = ((Some err, c1), w4)"
    if "args \<noteq> []" "getEntries E c1 ts args w1 = (Inr (pre @ e # post), w2)"
      "applyArgs_loop E pre ?ro (mutator c1) (Follow c1) ?ao w2 = (None, w3)"
      "Entry_Apply E e ?ro (mutator c1) (Follow c1) ?ao w3 = (Some err, w4)"
  proof -
    have "applyArgs_loop E (pre @ e # post) ?ro (mutator c1) (Follow c1) ?ao w2 = (Some err, w4)"
      using that(3,4) by (rule applyArgs_loop_abort)
    with assms that(1,2) show ?thesis
      by (simp add: applyArgs_def vfs_NewReadOnlyFS_def)
  qed
  have batch: "\<exists>errs' w5.
             TargetState_Apply_loop E post ?ro (mutator c1) (Follow c1) ?ao
               (errs @ [err]) (reportFailure E e err w4) = (errs', w5)
             \<and> err \<in> set errs'
             \<and> applyArgs E c [] ps w = ((Some (EntriesFailed errs'), c1), w5)"
    if en: "ts_Entries ts = pre @ e # post"
      and lp: "TargetState_Apply_loop E pre ?ro (mutator c1) (Follow c1) ?ao [] w1 = (errs, w3)"
      and ap: "Entry_Apply E e ?ro (mutator c1) (Follow c1) ?ao w3 = (Some err, w4)"
  proof -
    obtain errs' w5 where
      rest: "TargetState_Apply_loop E post ?ro (mutator c1) (Follow c1) ?ao
               (errs @ [err]) (reportFailure E e err w4) = (errs', w5)"
      by (cases "TargetState_Apply_loop E post ?ro (mutator c1) (Follow c1) ?ao
               (errs @ [err]) (reportFailure E e err w4)")
    from TargetState_Apply_loop_keeps_errors [OF rest] have mem: "err \<in> set errs'"
      by simp
    then have ne: "errs' \<noteq> []" by auto
    have whole: "TargetState_Apply_loop E (pre @ e # post) ?ro (mutator c1) (Follow c1) ?ao [] w1
                   = (errs', w5)"
      by (simp add: TargetState_Apply_loop_append lp ap rest)
    have "applyArgs E c [] ps w = ((Some (EntriesFailed errs'), c1), w5)"
      using assms ne
      by (simp add: applyArgs_def vfs_NewReadOnlyFS_def TargetState_Apply_def en whole)
    with rest mem show ?thesis
      by (intro exI conjI)
  qed
  show ?thesis
  proof (intro conjI impI)
    assume "args \<noteq> []
        \<and> getEntries E c1 ts args w1 = (Inr (pre @ e # post), w2)
        \<and> applyArgs_loop E pre ?ro (mutator c1) (Follow c1) ?ao w2 = (None, w3)
        \<and> Entry_Apply E e ?ro (mutator c1) (Follow c1) ?ao w3 = (Some err, w4)"
    then show "applyArgs E c args ps w = ((Some err, c1), w4)"
      by (elim conjE) (rule named)
  next
    assume "ts_Entries ts = pre @ e # post
        \<and> TargetState_Apply_loop E pre ?ro (mutator c1) (Follow c1) ?ao [] w1 = (errs, w3)
        \<and> Entry_Apply E e ?ro (mutator c1) (Follow c1) ?ao w3 = (Some err, w4)"
    then show "\<exists>errs' w5.
             TargetState_Apply_loop E post ?ro (mutator c1) (Follow c1) ?ao
               (errs @ [err]) (reportFailure E e err w4) = (errs', w5)
             \<and> err \<in> set errs'
             \<and> applyArgs E c [] ps w = ((Some (EntriesFailed errs'), c1), w5)"
      by (elim conjE) (rule batch)
  qed
qed


lemma getTargetState_env0_None:
  "\<exists>ts. getTargetState (env0 None) config0 None w = ((Inr ts, config0), w)
        \<and> ts_Entries ts = [Entry 1, Entry 2, Entry 3]"
proof -
  obtain ts where p: "getTargetState_populate (env0 None) config0 None w = ((Inr ts, config0), w)"
    and m: "ts_MinVersion ts = None" and e: "ts_Entries ts = [Entry 1, Entry 2, Entry 3]"
    using getTargetState_populate_env0 [of None w] by (elim exE conjE)
  have "getTargetState (env0 None) config0 None w = ((Inr ts, config0), w)"
    by (simp add: getTargetState_def p versionGate_def m split: option.splits)
  with e show ?thesis
    by (intro exI [of _ ts] conjI)
qed

lemma env0_Entry_Apply:
  "Entry_Apply (env0 mv) e h m follow ao w =
     (if e = Entry 2 then Some (ErrExternal 2) else None, w @ [e])"
  by (simp add: env0_def)

lemma env0_TargetState_Get:
  "TargetState_Get (env0 mv) ts h p w =
     (Inr (if p = S ''a'' then Some (Entry 1) else if p = S ''b'' then Some (Entry 2)
           else if p = S ''c'' then Some (Entry 3) else None), w)"
  by (simp add: env0_def)

lemma env0_filepath_Abs: "filepath_Abs (env0 mv) p w = Inr p"
  by (simp add: env0_def)

lemma env0_reportFailure: "reportFailure (env0 mv) e err w = w"
  by (simp add: env0_def)

theorem applyArgs_witness:
  "applyArgs (env0 None) config0 [S ''a'', S ''b'', S ''c''] (PersistentState 0) []
     = ((Some (ErrExternal 2), config0), [Entry 1, Entry 2])
   \<and> applyArgs (env0 None) config0 [] (PersistentState 0) []
     = ((Some (EntriesFailed [ErrExternal 2]), config0), [Entry 1, Entry 2, Entry 3])"
proof -
  let ?E = "env0 None"
  let ?ps = "PersistentState 0"
  let ?ro = "ReadOnlyFS (fs config0)"
  obtain ts where h: "getTargetState ?E config0 None [] = ((Inr ts, config0), [])"
    and en: "ts_Entries ts = [Entry 1, Entry 2, Entry 3]"
    using getTargetState_env0_None [of "[]"] by (elim exE conjE)
  let ?ao = "applyOptionsOf config0 ts ?ps"
  have ge: "getEntries ?E config0 ts [S ''a'', S ''b'', S ''c''] []
              = (Inr ([Entry 1] @ Entry 2 # [Entry 3]), [])"
    by (simp add: getEntries_def env0_TargetState_Get env0_filepath_Abs S_def)
  have l1: "applyArgs_loop ?E [Entry 1] ?ro (mutator config0) (Follow config0) ?ao []
              = (None, [Entry 1])"
    by (simp add: env0_Entry_Apply)
  have a2: "Entry_Apply ?E (Entry 2) ?ro (mutator config0) (Follow config0) ?ao [Entry 1]
              = (Some (ErrExternal 2), [Entry 1, Entry 2])"
    by (simp add: env0_Entry_Apply)
  have t1: "TargetState_Apply_loop ?E [Entry 1] ?ro (mutator config0) (Follow config0) ?ao [] []
              = ([], [Entry 1])"
    by (simp add: env0_Entry_Apply)
  have ne: "[S ''a'', S ''b'', S ''c''] \<noteq> []"
    by simp
  have en': "ts_Entries ts = [Entry 1] @ Entry 2 # [Entry 3]"
    by (simp add: en)
  note g = applyArgs_named_aborts_batch_continues [OF h,
      where args = "[S ''a'', S ''b'', S ''c'']" and pre = "[Entry 1]" and e = "Entry 2"
        and post = "[Entry 3]" and ps = ?ps and ?w2.0 = "[]" and ?w3.0 = "[Entry 1]"
        and err = "ErrExternal 2" and ?w4.0 = "[Entry 1, Entry 2]" and errs = "[]"]
  have named: "applyArgs ?E config0 [S ''a'', S ''b'', S ''c''] ?ps []
                 = ((Some (ErrExternal 2), config0), [Entry 1, Entry 2])"
    by (rule g [THEN conjunct1, THEN mp]) (intro conjI ne ge l1 a2)
  have "\<exists>errs' w5.
          TargetState_Apply_loop ?E [Entry 3] ?ro (mutator config0) (Follow config0) ?ao
            ([] @ [ErrExternal 2]) (reportFailure ?E (Entry 2) (ErrExternal 2) [Entry 1, Entry 2])
            = (errs', w5)
          \<and> ErrExternal 2 \<in> set errs'
          \<and> applyArgs ?E config0 [] ?ps [] = ((Some (EntriesFailed errs'), config0), w5)"
    by (rule g [THEN conjunct2, THEN mp]) (intro conjI en' t1 a2)
  then obtain errs' w5 where
    rest: "TargetState_Apply_loop ?E [Entry 3] ?ro (mutator config0) (Follow config0) ?ao
            ([] @ [ErrExternal 2]) (reportFailure ?E (Entry 2) (ErrExternal 2) [Entry 1, Entry 2])
            = (errs', w5)"
    and app: "applyArgs ?E config0 [] ?ps [] = ((Some (EntriesFailed errs'), config0), w5)"
    by (elim exE conjE)
  from rest have "errs' = [ErrExternal 2]" "w5 = [Entry 1, Entry 2, Entry 3]"
    by (simp_all add: env0_Entry_Apply env0_reportFailure)
  with app have batch: "applyArgs ?E config0 [] ?ps []
     = ((Some (EntriesFailed [ErrExternal 2]), config0), [Entry 1, Entry 2, Entry 3])"
    by (simp only:)
  from named batch show ?thesis
    by (intro conjI)
qed

subsection \<open>The handles handed to the read side\<close>

lemma extendsTrace_refl: "extendsTrace fs0 m0 t t"
  by (simp add: extendsTrace_def)

lemma extendsTrace_trans:
  "extendsTrace fs0 m0 t t1 \<Longrightarrow> extendsTrace fs0 m0 t1 t2 \<Longrightarrow> extendsTrace fs0 m0 t t2"
  by (auto simp: extendsTrace_def)

lemma extendsTrace_snoc:
  "handleAsWritten fs0 m0 call \<Longrightarrow> extendsTrace fs0 m0 t (t @ [call])"
  by (simp add: extendsTrace_def)

lemma extendsTrace_snoc2:
  "extendsTrace fs0 m0 t t1 \<Longrightarrow> handleAsWritten fs0 m0 call \<Longrightarrow> extendsTrace fs0 m0 t (t1 @ [call])"
  by (auto simp: extendsTrace_def)

lemma traced_getOSRelease:
  "getOSRelease (traced E) h wt =
     (case getOSRelease E h (fst wt) of (r, w1) \<Rightarrow> (r, (w1, snd wt @ [Call_getOSRelease h])))"
  by (simp add: traced_def)

lemma traced_getKernelInfo:
  "getKernelInfo (traced E) h wt =
     (case getKernelInfo E h (fst wt) of (r, w1) \<Rightarrow> (r, (w1, snd wt @ [Call_getKernelInfo h])))"
  by (simp add: traced_def)

lemma traced_Populate:
  "Populate (traced E) ts h po wt =
     (case Populate E ts h po (fst wt) of (r, w1) \<Rightarrow> (r, (w1, snd wt @ [Call_Populate h])))"
  by (simp add: traced_def)

lemma traced_TargetState_Get:
  "TargetState_Get (traced E) ts h p wt =
     (case TargetState_Get E ts h p (fst wt) of (r, w1) \<Rightarrow> (r, (w1, snd wt @ [Call_Get h p])))"
  by (simp add: traced_def)

lemma traced_Entry_Apply:
  "Entry_Apply (traced E) e h m follow ao wt =
     (case Entry_Apply E e h m follow ao (fst wt) of
        (r, w1) \<Rightarrow> (r, (w1, snd wt @ [Call_Apply h m e])))"
  by (simp add: traced_def)

lemma traced_reportFailure:
  "reportFailure (traced E) e err wt = (reportFailure E e err (fst wt), snd wt)"
  by (simp add: traced_def)

lemma trace_getDefaultData:
  "extendsTrace (fs c) (mutator c) (snd wt) (snd (snd (getDefaultData (traced E) c wt)))"
proof (cases "getDefaultData_host (traced E) c wt")
  case (Inl err)
  then show ?thesis
    by (simp add: getDefaultData_def extendsTrace_refl)
next
  case (Inr data)
  obtain r1 w1 where o: "getOSRelease E (fs c) (fst wt) = (r1, w1)"
    by (cases "getOSRelease E (fs c) (fst wt)")
  obtain r2 w2 where k: "getKernelInfo E (fs c) w1 = (r2, w2)"
    by (cases "getKernelInfo E (fs c) w1")
  have one: "extendsTrace (fs c) (mutator c) (snd wt) (snd wt @ [Call_getOSRelease (fs c)])"
    by (rule extendsTrace_snoc) simp
  have two: "extendsTrace (fs c) (mutator c) (snd wt)
               ((snd wt @ [Call_getOSRelease (fs c)]) @ [Call_getKernelInfo (fs c)])"
    by (rule extendsTrace_snoc2 [OF one]) simp
  from Inr o k one two show ?thesis
    by (simp add: getDefaultData_def traced_getOSRelease traced_getKernelInfo
        split: sum.splits option.splits)
qed

lemma trace_getData:
  "extendsTrace (fs c) (mutator c) (snd wt) (snd (snd (getData (traced E) c wt)))"
  using trace_getDefaultData [of c wt E]
  by (cases "getDefaultData (traced E) c wt")
     (auto simp: getData_def split: sum.splits)


lemma trace_getTargetState_populate:
  "extendsTrace (fs c) (mutator c) (snd wt) (snd (snd (getTargetState_populate (traced E) c po wt)))
   \<and> fs (snd (fst (getTargetState_populate (traced E) c po wt))) = fs c
   \<and> mutator (snd (fst (getTargetState_populate (traced E) c po wt))) = mutator c"
proof -
  obtain r wt1 where Pair: "getData (traced E) c wt = (r, wt1)"
    by (cases "getData (traced E) c wt")
  have d: "extendsTrace (fs c) (mutator c) (snd wt) (snd wt1)"
    using trace_getData [of c wt E] Pair by simp
  show ?thesis
  proof (cases r)
    case (Inl err)
    with Pair d show ?thesis
      by (simp add: getTargetState_populate_def)
  next
    case (Inr data)
    show ?thesis
    proof (cases "if DestDir c \<noteq> [] then filepath_Abs (traced E) (DestDir c) wt1
                  else Inr (DestDir c)")
      case (Inl err)
      with Pair Inr d show ?thesis
        by (simp add: getTargetState_populate_def)
    next
      case abs: (Inr destDir)
      let ?c1 = "if GPGRecipient c \<noteq> []
                 then c\<lparr>GPG := (GPG c)\<lparr>gpg_Recipient := GPGRecipient c\<rparr>\<rparr> else c"
      let ?ts = "NewTargetState destDir (GPG ?c1) (SourceDir ?c1) data
                   (templateFuncs ?c1) (Options (Template ?c1)) (word_of_int (Umask ?c1))"
      obtain r2 w2 where p: "Populate E ?ts (ReadOnlyFS (fs c)) po (fst wt1) = (r2, w2)"
        by (cases "Populate E ?ts (ReadOnlyFS (fs c)) po (fst wt1)")
      obtain err2 ts2 where r2: "r2 = (err2, ts2)"
        by (cases r2)
      have e: "extendsTrace (fs c) (mutator c) (snd wt) (snd wt1 @ [Call_Populate (ReadOnlyFS (fs c))])"
        by (rule extendsTrace_snoc2 [OF d]) simp
      have f: "fs ?c1 = fs c" "mutator ?c1 = mutator c"
        by simp_all
      from Pair Inr abs p r2 e f show ?thesis
        by (cases err2)
           (simp_all add: getTargetState_populate_def vfs_NewReadOnlyFS_def traced_Populate Let_def)
    qed
  qed
qed

lemma trace_getTargetState:
  "extendsTrace (fs c) (mutator c) (snd wt) (snd (snd (getTargetState (traced E) c po wt)))
   \<and> fs (snd (fst (getTargetState (traced E) c po wt))) = fs c
   \<and> mutator (snd (fst (getTargetState (traced E) c po wt))) = mutator c"
  using trace_getTargetState_populate [of c wt E po]
  by (cases "getTargetState_populate (traced E) c po wt")
     (auto simp: getTargetState_def split: sum.splits option.splits)

lemma trace_getEntries_loop:
  "extendsTrace (fs c) (mutator c) (snd wt) (snd (snd (getEntries_loop (traced E) c ts args entries wt)))"
proof (induction args arbitrary: entries wt)
  case Nil
  then show ?case by (simp add: extendsTrace_refl)
next
  case (Cons arg args)
  show ?case
  proof (cases "filepath_Abs (traced E) arg wt")
    case (Inl err)
    then show ?thesis by (simp add: extendsTrace_refl)
  next
    case (Inr targetPath)
    obtain r w1 where g: "TargetState_Get E ts (fs c) targetPath (fst wt) = (r, w1)"
      by (cases "TargetState_Get E ts (fs c) targetPath (fst wt)")
    have one: "extendsTrace (fs c) (mutator c) (snd wt) (snd wt @ [Call_Get (fs c) targetPath])"
      by (rule extendsTrace_snoc) simp
    show ?thesis
    proof (cases r)
      case (Inl err)
      with Inr g one show ?thesis
        by (simp add: traced_TargetState_Get)
    next
      case found: (Inr entry)
      show ?thesis
      proof (cases entry)
        case None
        with Inr g one found show ?thesis
          by (simp add: traced_TargetState_Get)
      next
        case (Some en)
        have "extendsTrace (fs c) (mutator c) (snd wt @ [Call_Get (fs c) targetPath])
                (snd (snd (getEntries_loop (traced E) c ts args (entries @ [en])
                   (w1, snd wt @ [Call_Get (fs c) targetPath]))))"
          using Cons.IH [where entries = "entries @ [en]"
              and wt = "(w1, snd wt @ [Call_Get (fs c) targetPath])"]
          by simp
        from extendsTrace_trans [OF one this] Inr g found Some show ?thesis
          by (simp add: traced_TargetState_Get)
      qed
    qed
  qed
qed

lemma trace_applyArgs_loop:
  "extendsTrace fs0 m0 (snd wt)
     (snd (snd (applyArgs_loop (traced E) entries (ReadOnlyFS fs0) m0 follow ao wt)))"
proof (induction entries arbitrary: wt)
  case Nil
  then show ?case by (simp add: extendsTrace_refl)
next
  case (Cons e entries)
  obtain r w1 where a: "Entry_Apply E e (ReadOnlyFS fs0) m0 follow ao (fst wt) = (r, w1)"
    by (cases "Entry_Apply E e (ReadOnlyFS fs0) m0 follow ao (fst wt)")
  have one: "extendsTrace fs0 m0 (snd wt) (snd wt @ [Call_Apply (ReadOnlyFS fs0) m0 e])"
    by (rule extendsTrace_snoc) simp
  show ?case
  proof (cases r)
    case None
    from extendsTrace_trans [OF one
        Cons.IH [of "(w1, snd wt @ [Call_Apply (ReadOnlyFS fs0) m0 e])", simplified]]
      a None show ?thesis
      by (simp add: traced_Entry_Apply)
  next
    case (Some err)
    with a one show ?thesis
      by (simp add: traced_Entry_Apply)
  qed
qed

lemma trace_TargetState_Apply_loop:
  "extendsTrace fs0 m0 (snd wt)
     (snd (snd (TargetState_Apply_loop (traced E) entries (ReadOnlyFS fs0) m0 follow ao errs wt)))"
proof (induction entries arbitrary: errs wt)
  case Nil
  then show ?case by (simp add: extendsTrace_refl)
next
  case (Cons e entries)
  obtain r w1 where a: "Entry_Apply E e (ReadOnlyFS fs0) m0 follow ao (fst wt) = (r, w1)"
    by (cases "Entry_Apply E e (ReadOnlyFS fs0) m0 follow ao (fst wt)")
  have one: "extendsTrace fs0 m0 (snd wt) (snd wt @ [Call_Apply (ReadOnlyFS fs0) m0 e])"
    by (rule extendsTrace_snoc) simp
  show ?case
  proof (cases r)
    case None
    from extendsTrace_trans [OF one
        Cons.IH [where errs = errs and wt = "(w1, snd wt @ [Call_Apply (ReadOnlyFS fs0) m0 e])",
          simplified]]
      a None show ?thesis
      by (simp add: traced_Entry_Apply)
  next
    case (Some err)
    from extendsTrace_trans [OF one
        Cons.IH [where errs = "errs @ [err]"
          and wt = "(reportFailure E e err w1, snd wt @ [Call_Apply (ReadOnlyFS fs0) m0 e])",
          simplified]]
      a Some show ?thesis
      by (simp add: traced_Entry_Apply traced_reportFailure)
  qed
qed


lemma trace_applyArgs:
  "extendsTrace (fs c) (mutator c) (snd wt) (snd (snd (applyArgs (traced E) c args ps wt)))"
proof -
  obtain r c1 wt1 where g: "getTargetState (traced E) c None wt = ((r, c1), wt1)"
    by (cases "getTargetState (traced E) c None wt") auto
  have t1: "extendsTrace (fs c) (mutator c) (snd wt) (snd wt1)" and f: "fs c1 = fs c"
    and mu: "mutator c1 = mutator c"
    using trace_getTargetState [of c wt E None] g by simp_all
  show ?thesis
  proof (cases r)
    case (Inl err)
    with g t1 show ?thesis
      by (simp add: applyArgs_def)
  next
    case (Inr ts)
    let ?ao = "applyOptionsOf c1 ts ps"
    show ?thesis
    proof (cases "args = []")
      case True
      have "extendsTrace (fs c) (mutator c) (snd wt1)
              (snd (snd (TargetState_Apply_loop (traced E) (ts_Entries ts) (ReadOnlyFS (fs c))
                           (mutator c1) (Follow c1) ?ao [] wt1)))"
        unfolding mu by (rule trace_TargetState_Apply_loop)
      from extendsTrace_trans [OF t1 this] g Inr True show ?thesis
        by (auto simp: applyArgs_def vfs_NewReadOnlyFS_def TargetState_Apply_def
            split: prod.splits)
    next
      case False
      obtain r2 wt2 where ge: "getEntries (traced E) c1 ts args wt1 = (r2, wt2)"
        by (cases "getEntries (traced E) c1 ts args wt1")
      have "extendsTrace (fs c1) (mutator c1) (snd wt1) (snd wt2)"
        using trace_getEntries_loop [of c1 wt1 E ts args "[]"] ge
        by (simp add: getEntries_def)
      then have t2: "extendsTrace (fs c) (mutator c) (snd wt) (snd wt2)"
        using t1 f mu extendsTrace_trans [of "fs c" "mutator c" "snd wt" "snd wt1" "snd wt2"]
        by simp
      show ?thesis
      proof (cases r2)
        case (Inl err)
        with g Inr False ge t2 show ?thesis
          by (simp add: applyArgs_def)
      next
        case found: (Inr entries)
        have "extendsTrace (fs c) (mutator c) (snd wt2)
                (snd (snd (applyArgs_loop (traced E) entries (ReadOnlyFS (fs c))
                             (mutator c1) (Follow c1) ?ao wt2)))"
          unfolding mu by (rule trace_applyArgs_loop)
        from extendsTrace_trans [OF t2 this] g Inr False ge found show ?thesis
          by (auto simp: applyArgs_def vfs_NewReadOnlyFS_def split: prod.splits)
      qed
    qed
  qed
qed

text \<open>
  Claim C6, as amended.  In every run of \<^verbatim>\<open>getTargetState\<close> and of
  \<^verbatim>\<open>applyArgs\<close>, the handle given to \<^verbatim>\<open>Populate\<close> and to every
  \<^verbatim>\<open>Entry.Apply\<close> is the read-only adapter around the filesystem of the
  configuration, which cannot mutate, and \<^verbatim>\<open>Entry.Apply\<close> is given the mutator
  of the configuration beside it; \<^verbatim>\<open>getOSRelease\<close>, \<^verbatim>\<open>getKernelInfo\<close> and
  \<^verbatim>\<open>TargetState.Get\<close> are given the filesystem of the configuration itself.
\<close>

theorem read_side_handles_as_written:
  "extendsTrace (fs c) (mutator c) t (snd (snd (getTargetState (traced E) c po (w, t))))
   \<and> extendsTrace (fs c) (mutator c) t (snd (snd (applyArgs (traced E) c args ps (w, t))))
   \<and> (\<forall>call. handleAsWritten (fs c) (mutator c) call \<longrightarrow>
         (case call of
            Call_Populate h \<Rightarrow> h = ReadOnlyFS (fs c) \<and> \<not> canMutate h
          | Call_Apply h m e \<Rightarrow> h = ReadOnlyFS (fs c) \<and> \<not> canMutate h \<and> m = mutator c
          | Call_getOSRelease h \<Rightarrow> h = fs c
          | Call_getKernelInfo h \<Rightarrow> h = fs c
          | Call_Get h p \<Rightarrow> h = fs c))"
proof -
  have a: "extendsTrace (fs c) (mutator c) t (snd (snd (getTargetState (traced E) c po (w, t))))"
    using trace_getTargetState [of c "(w, t)" E po] by simp
  have b: "extendsTrace (fs c) (mutator c) t (snd (snd (applyArgs (traced E) c args ps (w, t))))"
    using trace_applyArgs [of c "(w, t)" E args ps] by simp
  have d: "case call of
            Call_Populate h \<Rightarrow> h = ReadOnlyFS (fs c) \<and> \<not> canMutate h
          | Call_Apply h m e \<Rightarrow> h = ReadOnlyFS (fs c) \<and> \<not> canMutate h \<and> m = mutator c
          | Call_getOSRelease h \<Rightarrow> h = fs c
          | Call_getKernelInfo h \<Rightarrow> h = fs c
          | Call_Get h p \<Rightarrow> h = fs c" if "handleAsWritten (fs c) (mutator c) call" for call
    using that by (cases call) simp_all
  from a b d show ?thesis
    by (intro conjI allI impI)
qed

lemma config0_fs: "fs config0 = BaseFS 0"
  by (simp add: config0_def)

lemma config0_mutator: "mutator config0 = Mutator 0"
  by (simp add: config0_def)

lemma host_traced_env0: "\<exists>data. getDefaultData_host (traced (env0 mv)) config0 wt = Inr data"
  by (simp add: getDefaultData_host_def traced_def env0_def)

lemma getData_traced_env0:
  "\<exists>data. getData (traced (env0 mv)) config0 (w, t) =
     (Inr data, (w, t @ [Call_getOSRelease (BaseFS 0), Call_getKernelInfo (BaseFS 0)]))"
proof -
  obtain data where h: "getDefaultData_host (traced (env0 mv)) config0 (w, t) = Inr data"
    using host_traced_env0 by blast
  have o: "getOSRelease (env0 mv) = (\<lambda>h w. (Inr None, w))"
    and k: "getKernelInfo (env0 mv) = (\<lambda>h w. (Inr None, w))"
    by (simp_all add: env0_def)
  have "getDefaultData (traced (env0 mv)) config0 (w, t) =
     (Inr data, (w, t @ [Call_getOSRelease (BaseFS 0), Call_getKernelInfo (BaseFS 0)]))"
    by (simp add: getDefaultData_def h traced_getOSRelease traced_getKernelInfo o k config0_fs)
  then show ?thesis
    by (simp add: getData_def)
qed

lemma getTargetState_traced_env0:
  "\<exists>ts. getTargetState (traced (env0 None)) config0 None (w, t) =
          ((Inr ts, config0),
           (w, t @ [Call_getOSRelease (BaseFS 0), Call_getKernelInfo (BaseFS 0),
                    Call_Populate (ReadOnlyFS (BaseFS 0))]))
        \<and> ts_Entries ts = [Entry 1, Entry 2, Entry 3]"
proof -
  let ?t1 = "t @ [Call_getOSRelease (BaseFS 0), Call_getKernelInfo (BaseFS 0)]"
  obtain data where d: "getData (traced (env0 None)) config0 (w, t) = (Inr data, (w, ?t1))"
    using getData_traced_env0 by blast
  have g: "GPGRecipient config0 = []" and dd: "DestDir config0 = S ''/home''"
    by (simp_all add: config0_def)
  have a: "filepath_Abs (traced (env0 None)) = (\<lambda>p w. Inr p)"
    by (simp add: traced_def env0_def)
  have p: "Populate (env0 None) = (\<lambda>ts h po w.
          ((None, ts\<lparr>ts_Entries := [Entry 1, Entry 2, Entry 3], ts_MinVersion := None\<rparr>), w))"
    by (simp add: env0_def)
  have v: "Version (traced (env0 None)) = Some (SemVer 1 8 0 [])"
    by (simp add: traced_def env0_def)
  let ?ts = "(NewTargetState (S ''/home'') (GPG config0) (SourceDir config0) data
                (templateFuncs config0) (Options (Template config0)) (word_of_int (Umask config0)))
             \<lparr>ts_Entries := [Entry 1, Entry 2, Entry 3], ts_MinVersion := None\<rparr>"
  have e: "getTargetState_populate (traced (env0 None)) config0 None (w, t) =
             ((Inr ?ts, config0), (w, ?t1 @ [Call_Populate (ReadOnlyFS (BaseFS 0))]))"
    by (simp add: getTargetState_populate_def d g dd a p traced_Populate
        vfs_NewReadOnlyFS_def config0_fs)
  have f: "ts_MinVersion ?ts = None" "ts_Entries ?ts = [Entry 1, Entry 2, Entry 3]"
    by simp_all
  have "getTargetState (traced (env0 None)) config0 None (w, t) =
          ((Inr ?ts, config0), (w, ?t1 @ [Call_Populate (ReadOnlyFS (BaseFS 0))]))"
    by (simp add: getTargetState_def e versionGate_def v f(1))
  with f(2) show ?thesis
    by (intro exI [of _ ?ts] conjI) simp_all
qed

lemma applyArgs_traced_env0:
  "snd (snd (applyArgs (traced (env0 None)) config0 [S ''a''] (PersistentState 0) ([], []))) =
     [Call_getOSRelease (BaseFS 0), Call_getKernelInfo (BaseFS 0),
      Call_Populate (ReadOnlyFS (BaseFS 0)), Call_Get (BaseFS 0) (S ''a''),
      Call_Apply (ReadOnlyFS (BaseFS 0)) (Mutator 0) (Entry 1)]"
proof -
  let ?E = "traced (env0 None)"
  let ?t1 = "[Call_getOSRelease (BaseFS 0), Call_getKernelInfo (BaseFS 0),
              Call_Populate (ReadOnlyFS (BaseFS 0))]"
  obtain ts where h: "getTargetState ?E config0 None ([], []) = ((Inr ts, config0), ([], ?t1))"
    using getTargetState_traced_env0 [of "[]" "[]"] by (elim exE conjE) simp
  have a: "filepath_Abs ?E = (\<lambda>p w. Inr p)"
    by (simp add: traced_def env0_def)
  have ge: "getEntries ?E config0 ts [S ''a''] ([], ?t1)
              = (Inr [Entry 1], ([], ?t1 @ [Call_Get (BaseFS 0) (S ''a'')]))"
    by (simp add: getEntries_def traced_TargetState_Get env0_TargetState_Get a config0_fs)
  show ?thesis
    by (simp add: applyArgs_def h ge traced_Entry_Apply env0_Entry_Apply
        vfs_NewReadOnlyFS_def config0_fs config0_mutator)
qed

text \<open>
  The claim of C6 as stated fails: in this run \<^verbatim>\<open>TargetState.Get\<close>,
  \<^verbatim>\<open>getOSRelease\<close> and \<^verbatim>\<open>getKernelInfo\<close> are handed the filesystem of the
  configuration without the adapter, a handle that can mutate.
\<close>

theorem read_side_handle_unwrapped_counterexample:
  "snd (snd (applyArgs (traced (env0 None)) config0 [S ''a''] (PersistentState 0) ([], []))) =
     [Call_getOSRelease (BaseFS 0), Call_getKernelInfo (BaseFS 0),
      Call_Populate (ReadOnlyFS (BaseFS 0)), Call_Get (BaseFS 0) (S ''a''),
      Call_Apply (ReadOnlyFS (BaseFS 0)) (Mutator 0) (Entry 1)]
   \<and> fs config0 = BaseFS 0
   \<and> canMutate (handleOf (Call_Get (BaseFS 0) (S ''a'')))"
  by (simp add: applyArgs_traced_env0 config0_fs)

theorem read_side_handles_witness:
  "extendsTrace (BaseFS 0) (Mutator 0) []
     [Call_getOSRelease (BaseFS 0), Call_getKernelInfo (BaseFS 0),
      Call_Populate (ReadOnlyFS (BaseFS 0)), Call_Get (BaseFS 0) (S ''a''),
      Call_Apply (ReadOnlyFS (BaseFS 0)) (Mutator 0) (Entry 1)]
   \<and> handleAsWritten (fs config0) (mutator config0) (Call_Populate (ReadOnlyFS (BaseFS 0)))
   \<and> \<not> canMutate (ReadOnlyFS (BaseFS 0))"
proof -
  note g = read_side_handles_as_written
      [where c = config0 and t = "[]" and E = "env0 None" and po = None and w = "[]"
         and args = "[S ''a'']" and ps = "PersistentState 0"]
  have a: "extendsTrace (BaseFS 0) (Mutator 0) []
     [Call_getOSRelease (BaseFS 0), Call_getKernelInfo (BaseFS 0),
      Call_Populate (ReadOnlyFS (BaseFS 0)), Call_Get (BaseFS 0) (S ''a''),
      Call_Apply (ReadOnlyFS (BaseFS 0)) (Mutator 0) (Entry 1)]"
    using g [THEN conjunct2, THEN conjunct1]
    by (simp only: applyArgs_traced_env0 config0_fs config0_mutator)
  have b: "handleAsWritten (fs config0) (mutator config0) (Call_Populate (ReadOnlyFS (BaseFS 0)))"
    by (simp add: config0_fs)
  from a b show ?thesis
    by simp
qed

subsection \<open>The ignore matcher\<close>

lemma IgnoreMatcher_Match_snoc:
  "IgnoreMatcher_Match glob (patterns @ [(pattern, negated)]) path =
     (if glob pattern path then \<not> negated else IgnoreMatcher_Match glob patterns path)"
  by (simp add: IgnoreMatcher_Match_def)

lemma IgnoreMatcher_Match_append_unmatched:
  "\<forall>q \<in> set later. \<not> glob (fst q) path \<Longrightarrow>
   IgnoreMatcher_Match glob (patterns @ later) path = IgnoreMatcher_Match glob patterns path"
proof (induction later rule: rev_induct)
  case Nil
  then show ?case by simp
next
  case (snoc q later)
  obtain pattern negated where q: "q = (pattern, negated)" by (cases q)
  from snoc.prems have "\<not> glob pattern path"
    "\<forall>q \<in> set later. \<not> glob (fst q) path"
    by (auto simp: q)
  with snoc.IH show ?case
    using IgnoreMatcher_Match_snoc [of glob "patterns @ later" pattern negated path]
    by (simp add: q)
qed

lemma IgnoreMatcher_Match_last_match:
  assumes "i < length patterns" and "glob (fst (patterns ! i)) path"
    and "\<forall>j. i < j \<and> j < length patterns \<longrightarrow> \<not> glob (fst (patterns ! j)) path"
  shows "IgnoreMatcher_Match glob patterns path = (\<not> snd (patterns ! i))"
proof -
  let ?later = "drop (Suc i) patterns"
  have split: "patterns = (take i patterns @ [patterns ! i]) @ ?later"
    using assms(1) by (simp add: id_take_nth_drop [symmetric])
  have "\<forall>q \<in> set ?later. \<not> glob (fst q) path"
  proof
    fix q assume "q \<in> set ?later"
    then obtain k where k: "k < length ?later" "q = ?later ! k"
      by (auto simp: in_set_conv_nth)
    with assms(1) have "q = patterns ! (Suc i + k)" "Suc i + k < length patterns"
      by auto
    with assms(3) show "\<not> glob (fst q) path"
      by simp
  qed
  from IgnoreMatcher_Match_append_unmatched [where glob = glob and path = path
      and later = ?later and patterns = "take i patterns @ [patterns ! i]", OF this]
  have "IgnoreMatcher_Match glob patterns path =
          IgnoreMatcher_Match glob (take i patterns @ [patterns ! i]) path"
    using split by simp
  also have "\<dots> = (\<not> snd (patterns ! i))"
    using IgnoreMatcher_Match_snoc
      [of glob "take i patterns" "fst (patterns ! i)" "snd (patterns ! i)" path] assms(2)
    by simp
  finally show ?thesis .
qed

lemma globMatch_examples:
  "globMatch (S ''foo/*'') (S ''foo/a.txt'')"
  "globMatch (S ''foo/*'') (S ''foo/keep.txt'')"
  "\<not> globMatch (S ''foo/keep.txt'') (S ''foo/a.txt'')"
  "globMatch (S ''foo/keep.txt'') (S ''foo/keep.txt'')"
  by (simp_all add: S_def)

text \<open>
  Claim C5.  For every ordered pattern list and every path, \<^verbatim>\<open>Match\<close> returns
  the outcome of the last pattern in file order that matches the path: true
  for a plain pattern, false for a negated one; it returns false when no
  pattern matches.  For the patterns \<^verbatim>\<open>foo/*\<close>, \<^verbatim>\<open>!foo/keep.txt\<close> it is
  true on \<^verbatim>\<open>foo/a.txt\<close> and false on \<^verbatim>\<open>foo/keep.txt\<close>.
\<close>

theorem IgnoreMatcher_Match_last_pattern_wins:
  "(\<forall>i. i < length patterns \<and> glob (fst (patterns ! i)) path
         \<and> (\<forall>j. i < j \<and> j < length patterns \<longrightarrow> \<not> glob (fst (patterns ! j)) path)
       \<longrightarrow> IgnoreMatcher_Match glob patterns path = (\<not> snd (patterns ! i)))
   \<and> ((\<forall>i < length patterns. \<not> glob (fst (patterns ! i)) path)
       \<longrightarrow> \<not> IgnoreMatcher_Match glob patterns path)
   \<and> IgnoreMatcher_Match globMatch (map patternOfLine [S ''foo/*'', S ''!foo/keep.txt''])
        (S ''foo/a.txt'')
   \<and> \<not> IgnoreMatcher_Match globMatch (map patternOfLine [S ''foo/*'', S ''!foo/keep.txt''])
        (S ''foo/keep.txt'')"
proof -
  have a: "IgnoreMatcher_Match glob patterns path = (\<not> snd (patterns ! i))"
    if "i < length patterns \<and> glob (fst (patterns ! i)) path
         \<and> (\<forall>j. i < j \<and> j < length patterns \<longrightarrow> \<not> glob (fst (patterns ! j)) path)" for i
    using that IgnoreMatcher_Match_last_match [of i patterns glob path] by blast
  have b: "\<not> IgnoreMatcher_Match glob patterns path"
    if "\<forall>i < length patterns. \<not> glob (fst (patterns ! i)) path"
  proof -
    have "\<forall>q \<in> set patterns. \<not> glob (fst q) path"
    proof
      fix q assume "q \<in> set patterns"
      then obtain i where "i < length patterns" "q = patterns ! i"
        by (auto simp: in_set_conv_nth)
      with that show "\<not> glob (fst q) path"
        by simp
    qed
    from IgnoreMatcher_Match_append_unmatched [where glob = glob and path = path
        and later = patterns and patterns = "[]", OF this] show ?thesis
      by (simp add: IgnoreMatcher_Match_def)
  qed
  have p: "map patternOfLine [S ''foo/*'', S ''!foo/keep.txt'']
             = [(S ''foo/*'', False), (S ''foo/keep.txt'', True)]"
    by (simp add: patternOfLine_def S_def)
  have c: "IgnoreMatcher_Match globMatch (map patternOfLine [S ''foo/*'', S ''!foo/keep.txt''])
        (S ''foo/a.txt'')"
    by (simp only: p) (simp add: IgnoreMatcher_Match_def globMatch_examples)
  have d: "\<not> IgnoreMatcher_Match globMatch (map patternOfLine [S ''foo/*'', S ''!foo/keep.txt''])
        (S ''foo/keep.txt'')"
    by (simp only: p) (simp add: IgnoreMatcher_Match_def globMatch_examples)
  from a b c d show ?thesis
    by (intro conjI allI impI)
qed

theorem IgnoreMatcher_Match_witness:
  "IgnoreMatcher_Match globMatch
     [(S ''*.log'', False), (S ''keep.log'', True), (S ''b*'', False)] (S ''keep.log'') = False
   \<and> IgnoreMatcher_Match globMatch
     [(S ''*.log'', False), (S ''keep.log'', True), (S ''b*'', False)] (S ''a.txt'') = False"
proof -
  let ?ps = "[(S ''*.log'', False), (S ''keep.log'', True), (S ''b*'', False)]"
  note g = IgnoreMatcher_Match_last_pattern_wins [of ?ps globMatch "S ''keep.log''"]
  note g' = IgnoreMatcher_Match_last_pattern_wins [of ?ps globMatch "S ''a.txt''"]
  have m: "globMatch (S ''keep.log'') (S ''keep.log'')" "\<not> globMatch (S ''b*'') (S ''keep.log'')"
    "\<not> globMatch (S ''*.log'') (S ''a.txt'')" "\<not> globMatch (S ''keep.log'') (S ''a.txt'')"
    "\<not> globMatch (S ''b*'') (S ''a.txt'')"
    by (simp_all add: S_def)
  have h1: "(1::nat) < length ?ps \<and> globMatch (fst (?ps ! 1)) (S ''keep.log'')
         \<and> (\<forall>j. 1 < j \<and> j < length ?ps \<longrightarrow> \<not> globMatch (fst (?ps ! j)) (S ''keep.log''))"
  proof (intro conjI allI impI)
    fix j assume "1 < j \<and> j < length ?ps"
    then have "j = 2" by auto
    then show "\<not> globMatch (fst (?ps ! j)) (S ''keep.log'')"
      by (simp add: m)
  qed (simp_all add: m)
  have a: "IgnoreMatcher_Match globMatch ?ps (S ''keep.log'') = (\<not> snd (?ps ! 1))"
    by (rule g [THEN conjunct1, THEN spec, THEN mp]) (rule h1)
  have h2: "\<forall>i < length ?ps. \<not> globMatch (fst (?ps ! i)) (S ''a.txt'')"
  proof (intro allI impI)
    fix i assume "i < length ?ps"
    then have "i = 0 \<or> i = 1 \<or> i = 2" by auto
    then show "\<not> globMatch (fst (?ps ! i)) (S ''a.txt'')"
      by (auto simp: m)
  qed
  have b: "\<not> IgnoreMatcher_Match globMatch ?ps (S ''a.txt'')"
    by (rule g' [THEN conjunct2, THEN conjunct1, THEN mp]) (rule h2)
  from a b show ?thesis
    by simp
qed

subsection \<open>The attribute codec\<close>

lemma stripFlag_mark: "b \<or> \<not> prefix m r \<Longrightarrow> stripFlag m (mark b m @ r) = (b, r)"
  by (auto simp: stripFlag_def mark_def)

lemma not_prefix_append:
  "\<not> prefix m m' \<Longrightarrow> \<not> prefix m' m \<Longrightarrow> \<not> prefix m (m' @ r)"
proof
  assume a: "\<not> prefix m m'" "\<not> prefix m' m" and p: "prefix m (m' @ r)"
  have "prefix m' (m' @ r)" by simp
  from prefix_same_cases [OF p this] a show False by blast
qed

lemma not_prefix_mark:
  "\<not> prefix m m' \<Longrightarrow> \<not> prefix m' m \<Longrightarrow> \<not> prefix m r \<Longrightarrow> \<not> prefix m (mark b m' @ r)"
  by (cases b) (simp_all add: mark_def not_prefix_append)

lemma dotDecode_dotEncode:
  "isDotName name \<or> \<not> prefix (dotPrefix M) (name @ r) \<Longrightarrow>
   dotDecode M (dotEncode M name @ r) = name @ r"
  by (cases name) (auto simp: dotDecode_def dotEncode_def isDotName_def)

lemma stripTemplate_mark:
  "b \<or> \<not> suffix (templateSuffix M) name \<Longrightarrow>
   stripTemplate M (name @ mark b (templateSuffix M)) = (b, name)"
  by (auto simp: stripTemplate_def mark_def suffix_def)

lemma ParseDirAttributes_SourceName:
  assumes "wfMarkers M" and "validDirAttributes M da"
  shows "ParseDirAttributes M (DirAttributes_SourceName M da) = da"
proof -
  let ?body = "dotEncode M (da_Name da)"
  from assms(1) have inc:
    "\<not> prefix (exactPrefix M) (privatePrefix M)" "\<not> prefix (privatePrefix M) (exactPrefix M)"
    "\<not> prefix (exactPrefix M) (dotPrefix M)" "\<not> prefix (dotPrefix M) (exactPrefix M)"
    "\<not> prefix (privatePrefix M) (dotPrefix M)" "\<not> prefix (dotPrefix M) (privatePrefix M)"
    by (simp_all add: wfMarkers_def dirMarkers_def)
  have body: "\<not> prefix (exactPrefix M) ?body" "\<not> prefix (privatePrefix M) ?body"
    using assms(2) inc
    by (auto simp: validDirAttributes_def dirMarkers_def dotEncode_def not_prefix_append)
  have dot: "dotDecode M ?body = da_Name da"
    using assms(2) dotDecode_dotEncode [of "da_Name da" M "[]"]
    by (auto simp: validDirAttributes_def dirMarkers_def)
  have s1: "stripFlag (exactPrefix M) (DirAttributes_SourceName M da)
              = (da_Exact da, mark (da_Private da) (privatePrefix M) @ ?body)"
    unfolding DirAttributes_SourceName_def
    by (rule stripFlag_mark) (simp add: not_prefix_mark inc body)
  have s2: "stripFlag (privatePrefix M) (mark (da_Private da) (privatePrefix M) @ ?body)
              = (da_Private da, ?body)"
    by (rule stripFlag_mark) (simp add: body)
  show ?thesis
    by (simp add: ParseDirAttributes_def s1 s2 dot)
qed


lemma stripType_typePrefix:
  "\<not> prefix (runPrefix M) (symlinkPrefix M) \<Longrightarrow> \<not> prefix (symlinkPrefix M) (runPrefix M) \<Longrightarrow>
   \<not> prefix (runPrefix M) r \<Longrightarrow> \<not> prefix (symlinkPrefix M) r \<Longrightarrow>
   stripType M (typePrefix M t @ r) = (t, r)"
  by (cases t) (simp_all add: stripType_def typePrefix_def not_prefix_append)

lemma ParseFileAttributes_SourceName:
  assumes "wfMarkers M" and "validFileAttributes M fa"
  shows "ParseFileAttributes M (FileAttributes_SourceName M fa) = fa"
proof -
  let ?tail = "mark (fa_Template fa) (templateSuffix M)"
  let ?body = "dotEncode M (fa_Name fa) @ ?tail"
  let ?r5 = "?body"
  let ?r4 = "mark (fa_Executable fa) (executablePrefix M) @ ?r5"
  let ?r3 = "mark (fa_Empty fa) (emptyPrefix M) @ ?r4"
  let ?r2 = "mark (fa_Private fa) (privatePrefix M) @ ?r3"
  let ?r1 = "mark (fa_Encrypted fa) (encryptedPrefix M) @ ?r2"
  let ?r0 = "mark (fa_Once fa) (oncePrefix M) @ ?r1"
  from assms(1) have inc: "pairwiseIncomparable (fileMarkers M)"
    by (simp add: wfMarkers_def)
  note i = inc [unfolded fileMarkers_def, simplified]
  have body: "\<not> prefix m ?body"
    if "m \<in> set (fileMarkers M)" "\<not> prefix m (dotPrefix M)" "\<not> prefix (dotPrefix M) m"
    for m
  proof (cases "isDotName (fa_Name fa)")
    case True
    from that(2,3) have "\<not> prefix m (dotPrefix M @ (tl (fa_Name fa) @ ?tail))"
      by (rule not_prefix_append)
    with True show ?thesis
      by (simp add: dotEncode_def)
  next
    case False
    with assms(2) that(1) show ?thesis
      by (simp add: validFileAttributes_def dotEncode_def)
  qed
  have b: "\<not> prefix (runPrefix M) ?body" "\<not> prefix (symlinkPrefix M) ?body"
    "\<not> prefix (oncePrefix M) ?body" "\<not> prefix (encryptedPrefix M) ?body"
    "\<not> prefix (privatePrefix M) ?body" "\<not> prefix (emptyPrefix M) ?body"
    "\<not> prefix (executablePrefix M) ?body"
    by (rule body; simp add: i fileMarkers_def)+
  have dot: "dotDecode M ?body = fa_Name fa @ ?tail"
    using assms(2) dotDecode_dotEncode [of "fa_Name fa" M ?tail]
    by (auto simp: validFileAttributes_def fileMarkers_def)
  have tmpl: "stripTemplate M (fa_Name fa @ ?tail) = (fa_Template fa, fa_Name fa)"
    using assms(2) by (intro stripTemplate_mark) (auto simp: validFileAttributes_def)
  have s5: "stripFlag (executablePrefix M) ?r4 = (fa_Executable fa, ?r5)"
    by (rule stripFlag_mark) (simp add: b)
  have s4: "stripFlag (emptyPrefix M) ?r3 = (fa_Empty fa, ?r4)"
    by (rule stripFlag_mark) (simp add: not_prefix_mark i b)
  have s3: "stripFlag (privatePrefix M) ?r2 = (fa_Private fa, ?r3)"
    by (rule stripFlag_mark) (simp add: not_prefix_mark i b)
  have s2: "stripFlag (encryptedPrefix M) ?r1 = (fa_Encrypted fa, ?r2)"
    by (rule stripFlag_mark) (simp add: not_prefix_mark i b)
  have s1: "stripFlag (oncePrefix M) ?r0 = (fa_Once fa, ?r1)"
    by (rule stripFlag_mark) (simp add: not_prefix_mark i b)
  have s0: "stripType M (FileAttributes_SourceName M fa) = (fa_Type fa, ?r0)"
    unfolding FileAttributes_SourceName_def
    by (rule stripType_typePrefix) (simp_all add: not_prefix_mark i b)
  show ?thesis
    by (simp add: ParseFileAttributes_def s0 s1 s2 s3 s4 s5 dot tmpl)
qed

lemma wfMarkers_chezmoiMarkers: "wfMarkers chezmoiMarkers"
  by (simp add: wfMarkers_def dirMarkers_def fileMarkers_def chezmoiMarkers_def S_def)


text \<open>
  Claim C1.  For a well-formed marker grammar the codec is a bijection on its
  domain: parsing the source name of a syntactically valid \<^verbatim>\<open>DirAttributes\<close>
  or \<^verbatim>\<open>FileAttributes\<close> value gives the value back, and encoding the parse of
  a canonically encoded source name (the source name of a valid value) gives
  the source name back.
\<close>

theorem attribute_codec_round_trip:
  assumes "wfMarkers M"
  shows "(validDirAttributes M da \<longrightarrow>
            ParseDirAttributes M (DirAttributes_SourceName M da) = da)
       \<and> (validFileAttributes M fa \<longrightarrow>
            ParseFileAttributes M (FileAttributes_SourceName M fa) = fa)
       \<and> (\<forall>a. validDirAttributes M a \<and> s = DirAttributes_SourceName M a \<longrightarrow>
              DirAttributes_SourceName M (ParseDirAttributes M s) = s)
       \<and> (\<forall>a. validFileAttributes M a \<and> s = FileAttributes_SourceName M a \<longrightarrow>
              FileAttributes_SourceName M (ParseFileAttributes M s) = s)"
proof (intro conjI allI impI)
  assume "validDirAttributes M da"
  with assms show "ParseDirAttributes M (DirAttributes_SourceName M da) = da"
    by (rule ParseDirAttributes_SourceName)
next
  assume "validFileAttributes M fa"
  with assms show "ParseFileAttributes M (FileAttributes_SourceName M fa) = fa"
    by (rule ParseFileAttributes_SourceName)
next
  fix a assume a: "validDirAttributes M a \<and> s = DirAttributes_SourceName M a"
  then have "ParseDirAttributes M s = a"
    using ParseDirAttributes_SourceName [OF assms, of a] by simp
  with a show "DirAttributes_SourceName M (ParseDirAttributes M s) = s"
    by simp
next
  fix a assume a: "validFileAttributes M a \<and> s = FileAttributes_SourceName M a"
  then have "ParseFileAttributes M s = a"
    using ParseFileAttributes_SourceName [OF assms, of a] by simp
  with a show "FileAttributes_SourceName M (ParseFileAttributes M s) = s"
    by simp
qed

lemma validDirAttributes0: "validDirAttributes chezmoiMarkers dirAttributes0"
  by (simp add: validDirAttributes_def dirAttributes0_def isDotName_def S_def)

lemma validFileAttributes0: "validFileAttributes chezmoiMarkers fileAttributes0"
  by (simp add: validFileAttributes_def fileAttributes0_def isDotName_def S_def)

lemma validScriptAttributes0: "validFileAttributes chezmoiMarkers scriptAttributes0"
  by (simp add: validFileAttributes_def scriptAttributes0_def isDotName_def S_def
      fileMarkers_def chezmoiMarkers_def mark_def suffix_to_prefix)

lemma SourceName_dirAttributes0:
  "DirAttributes_SourceName chezmoiMarkers dirAttributes0 = S ''exact_private_dot_dir''"
  by (simp add: DirAttributes_SourceName_def dirAttributes0_def mark_def dotEncode_def
      isDotName_def chezmoiMarkers_def S_def)

lemma SourceName_fileAttributes0:
  "FileAttributes_SourceName chezmoiMarkers fileAttributes0
     = S ''encrypted_private_empty_executable_dot_name.tmpl''"
  by (simp add: FileAttributes_SourceName_def fileAttributes0_def mark_def dotEncode_def
      isDotName_def typePrefix_def chezmoiMarkers_def S_def)

lemma SourceName_scriptAttributes0:
  "FileAttributes_SourceName chezmoiMarkers scriptAttributes0 = S ''run_once_name''"
  by (simp add: FileAttributes_SourceName_def scriptAttributes0_def mark_def dotEncode_def
      isDotName_def typePrefix_def chezmoiMarkers_def S_def)

lemma codec_domain_is_needed:
  "ParseDirAttributes chezmoiMarkers
     (DirAttributes_SourceName chezmoiMarkers
        \<lparr> da_Name = S ''private_x'', da_Exact = False, da_Private = False \<rparr>)
     = \<lparr> da_Name = S ''x'', da_Exact = False, da_Private = True \<rparr>"
  by (simp add: ParseDirAttributes_def DirAttributes_SourceName_def stripFlag_def mark_def
      dotEncode_def dotDecode_def isDotName_def chezmoiMarkers_def S_def)

theorem attribute_codec_witness:
  "wfMarkers chezmoiMarkers
   \<and> validDirAttributes chezmoiMarkers dirAttributes0
   \<and> ParseDirAttributes chezmoiMarkers (S ''exact_private_dot_dir'') = dirAttributes0
   \<and> validFileAttributes chezmoiMarkers fileAttributes0
   \<and> ParseFileAttributes chezmoiMarkers (S ''encrypted_private_empty_executable_dot_name.tmpl'')
       = fileAttributes0
   \<and> FileAttributes_SourceName chezmoiMarkers
         (ParseFileAttributes chezmoiMarkers (S ''run_once_name'')) = S ''run_once_name''"
proof -
  note g = attribute_codec_round_trip [OF wfMarkers_chezmoiMarkers,
      where da = dirAttributes0 and fa = fileAttributes0 and s = "S ''run_once_name''"]
  have d: "ParseDirAttributes chezmoiMarkers (S ''exact_private_dot_dir'') = dirAttributes0"
    using g [THEN conjunct1, THEN mp, OF validDirAttributes0]
    by (simp only: SourceName_dirAttributes0)
  have f: "ParseFileAttributes chezmoiMarkers
             (S ''encrypted_private_empty_executable_dot_name.tmpl'') = fileAttributes0"
    using g [THEN conjunct2, THEN conjunct1, THEN mp, OF validFileAttributes0]
    by (simp only: SourceName_fileAttributes0)
  have "validFileAttributes chezmoiMarkers scriptAttributes0
          \<and> S ''run_once_name'' = FileAttributes_SourceName chezmoiMarkers scriptAttributes0"
    by (simp only: validScriptAttributes0 SourceName_scriptAttributes0)
  from g [THEN conjunct2, THEN conjunct2, THEN conjunct2, THEN spec, THEN mp, OF this]
  have r: "FileAttributes_SourceName chezmoiMarkers
         (ParseFileAttributes chezmoiMarkers (S ''run_once_name'')) = S ''run_once_name''" .
  from wfMarkers_chezmoiMarkers validDirAttributes0 d validFileAttributes0 f r show ?thesis
    by (intro conjI)
qed

end
